theory Spec2Isabelle
  imports Complex_Main "HOL-Library.Word" "HOL-Library.Finite_Map" "HOL-Library.Char_ord"
    "HOL-Library.List_Lexorder"
begin

section \<open>CockroachDB datastore options (internal/datastore/crdb/options.go)\<close>

text \<open>
  Go's \<^verbatim>\<open>time.Duration\<close> is a signed 64-bit count of nanoseconds; its comparisons are
  the signed ones (\<^const>\<open>word_sle\<close>, \<^const>\<open>word_sless\<close>).
\<close>

type_synonym Duration = "64 word"

definition time_Second :: Duration where
  "time_Second = 1000000000"

definition time_Hour :: Duration where
  "time_Hour = 3600 * time_Second"

text \<open>
  \<^verbatim>\<open>pgxcommon.PoolOptions\<close> is declared in another package; the record holds the six
  pointer fields that the options of this file assign (a nil pointer is \<open>None\<close>).
\<close>

record PoolOptions =
  ConnHealthCheckInterval :: "Duration option"
  ConnMaxIdleTime :: "Duration option"
  ConnMaxLifetime :: "Duration option"
  ConnMaxLifetimeJitter :: "Duration option"
  MinOpenConns :: "64 word option"
  MaxOpenConns :: "64 word option"

definition zeroPoolOptions :: PoolOptions where
  "zeroPoolOptions = \<lparr>ConnHealthCheckInterval = None, ConnMaxIdleTime = None,
     ConnMaxLifetime = None, ConnMaxLifetimeJitter = None,
     MinOpenConns = None, MaxOpenConns = None\<rparr>"

text \<open>
  The \<^verbatim>\<open>float64\<close> field is only stored by this file, never computed with; it is
  represented by the value its literal denotes.
\<close>

record crdbOptions =
  readPoolOpts :: PoolOptions
  writePoolOpts :: PoolOptions
  watchBufferLength :: "16 word"
  revisionQuantization :: Duration
  followerReadDelay :: Duration
  maxRevisionStalenessPercent :: real
  gcWindow :: Duration
  maxRetries :: "8 word"
  splitAtUsersetCount :: "16 word"
  overlapStrategy :: string
  overlapKey :: string
  disableStats :: bool
  enablePrometheusStats :: bool

definition overlapStrategyPrefix :: string where
  "overlapStrategyPrefix = ''prefix''"

definition overlapStrategyStatic :: string where
  "overlapStrategyStatic = ''static''"

definition overlapStrategyInsecure :: string where
  "overlapStrategyInsecure = ''insecure''"

definition defaultRevisionQuantization :: Duration where
  "defaultRevisionQuantization = 5 * time_Second"

definition defaultFollowerReadDelay :: Duration where
  "defaultFollowerReadDelay = 0 * time_Second"

definition defaultMaxRevisionStalenessPercent :: real where
  "defaultMaxRevisionStalenessPercent = 0.1"

definition defaultWatchBufferLength :: "16 word" where
  "defaultWatchBufferLength = 128"

definition defaultSplitSize :: "16 word" where
  "defaultSplitSize = 1024"

definition defaultMaxRetries :: "8 word" where
  "defaultMaxRetries = 5"

definition defaultOverlapKey :: string where
  "defaultOverlapKey = ''defaultsynckey''"

definition defaultOverlapStrategy :: string where
  "defaultOverlapStrategy = overlapStrategyStatic"

definition defaultEnablePrometheusStats :: bool where
  "defaultEnablePrometheusStats = False"

text \<open>
  An \<^verbatim>\<open>Option\<close> is a closure that mutates the options through a pointer: a function
  from the options to the updated options.
\<close>

type_synonym Option = "crdbOptions \<Rightarrow> crdbOptions"

text \<open>The error built by \<^verbatim>\<open>fmt.Errorf(errQuantizationTooLarge, q, w)\<close>, with its arguments.\<close>

datatype config_error = ErrQuantizationTooLarge Duration Duration

definition initialOptions :: crdbOptions where
  "initialOptions = \<lparr>
     readPoolOpts = zeroPoolOptions,
     writePoolOpts = zeroPoolOptions,
     watchBufferLength = defaultWatchBufferLength,
     revisionQuantization = defaultRevisionQuantization,
     followerReadDelay = defaultFollowerReadDelay,
     maxRevisionStalenessPercent = defaultMaxRevisionStalenessPercent,
     gcWindow = 24 * time_Hour,
     maxRetries = defaultMaxRetries,
     splitAtUsersetCount = defaultSplitSize,
     overlapStrategy = defaultOverlapStrategy,
     overlapKey = defaultOverlapKey,
     disableStats = False,
     enablePrometheusStats = defaultEnablePrometheusStats\<rparr>"

text \<open>The loop \<^verbatim>\<open>for _, option := range options { option(&computed) }\<close>.\<close>

fun applyOptions :: "Option list \<Rightarrow> crdbOptions \<Rightarrow> crdbOptions" where
  "applyOptions [] computed = computed"
| "applyOptions (option # options) computed = applyOptions options (option computed)"

definition generateConfig :: "Option list \<Rightarrow> crdbOptions \<times> config_error option" where
  "generateConfig options =
     (let computed = applyOptions options initialOptions in
      if word_sle (gcWindow computed) (revisionQuantization computed)
      then (computed, Some (ErrQuantizationTooLarge (revisionQuantization computed) (gcWindow computed)))
      else (computed, None))"

definition SplitAtUsersetCount :: "16 word \<Rightarrow> Option" where
  "SplitAtUsersetCount n = (\<lambda>po. po\<lparr>splitAtUsersetCount := n\<rparr>)"

definition ReadConnHealthCheckInterval :: "Duration \<Rightarrow> Option" where
  "ReadConnHealthCheckInterval interval =
     (\<lambda>po. po\<lparr>readPoolOpts := (readPoolOpts po)\<lparr>ConnHealthCheckInterval := Some interval\<rparr>\<rparr>)"

definition WriteConnHealthCheckInterval :: "Duration \<Rightarrow> Option" where
  "WriteConnHealthCheckInterval interval =
     (\<lambda>po. po\<lparr>writePoolOpts := (writePoolOpts po)\<lparr>ConnHealthCheckInterval := Some interval\<rparr>\<rparr>)"

definition ReadConnMaxIdleTime :: "Duration \<Rightarrow> Option" where
  "ReadConnMaxIdleTime idle =
     (\<lambda>po. po\<lparr>readPoolOpts := (readPoolOpts po)\<lparr>ConnMaxIdleTime := Some idle\<rparr>\<rparr>)"

definition WriteConnMaxIdleTime :: "Duration \<Rightarrow> Option" where
  "WriteConnMaxIdleTime idle =
     (\<lambda>po. po\<lparr>writePoolOpts := (writePoolOpts po)\<lparr>ConnMaxIdleTime := Some idle\<rparr>\<rparr>)"

definition ReadConnMaxLifetime :: "Duration \<Rightarrow> Option" where
  "ReadConnMaxLifetime lifetime =
     (\<lambda>po. po\<lparr>readPoolOpts := (readPoolOpts po)\<lparr>ConnMaxLifetime := Some lifetime\<rparr>\<rparr>)"

definition ReadConnMaxLifetimeJitter :: "Duration \<Rightarrow> Option" where
  "ReadConnMaxLifetimeJitter jitter =
     (\<lambda>po. po\<lparr>readPoolOpts := (readPoolOpts po)\<lparr>ConnMaxLifetimeJitter := Some jitter\<rparr>\<rparr>)"

definition WriteConnMaxLifetime :: "Duration \<Rightarrow> Option" where
  "WriteConnMaxLifetime lifetime =
     (\<lambda>po. po\<lparr>writePoolOpts := (writePoolOpts po)\<lparr>ConnMaxLifetime := Some lifetime\<rparr>\<rparr>)"

definition WriteConnMaxLifetimeJitter :: "Duration \<Rightarrow> Option" where
  "WriteConnMaxLifetimeJitter jitter =
     (\<lambda>po. po\<lparr>writePoolOpts := (writePoolOpts po)\<lparr>ConnMaxLifetimeJitter := Some jitter\<rparr>\<rparr>)"

definition ReadConnsMinOpen :: "64 word \<Rightarrow> Option" where
  "ReadConnsMinOpen conns =
     (\<lambda>po. po\<lparr>readPoolOpts := (readPoolOpts po)\<lparr>MinOpenConns := Some conns\<rparr>\<rparr>)"

definition WriteConnsMinOpen :: "64 word \<Rightarrow> Option" where
  "WriteConnsMinOpen conns =
     (\<lambda>po. po\<lparr>writePoolOpts := (writePoolOpts po)\<lparr>MinOpenConns := Some conns\<rparr>\<rparr>)"

definition ReadConnsMaxOpen :: "64 word \<Rightarrow> Option" where
  "ReadConnsMaxOpen conns =
     (\<lambda>po. po\<lparr>readPoolOpts := (readPoolOpts po)\<lparr>MaxOpenConns := Some conns\<rparr>\<rparr>)"

definition WriteConnsMaxOpen :: "64 word \<Rightarrow> Option" where
  "WriteConnsMaxOpen conns =
     (\<lambda>po. po\<lparr>writePoolOpts := (writePoolOpts po)\<lparr>MaxOpenConns := Some conns\<rparr>\<rparr>)"

definition WatchBufferLength :: "16 word \<Rightarrow> Option" where
  "WatchBufferLength n = (\<lambda>po. po\<lparr>watchBufferLength := n\<rparr>)"

definition RevisionQuantization :: "Duration \<Rightarrow> Option" where
  "RevisionQuantization bucketSize = (\<lambda>po. po\<lparr>revisionQuantization := bucketSize\<rparr>)"

definition FollowerReadDelay :: "Duration \<Rightarrow> Option" where
  "FollowerReadDelay delay = (\<lambda>po. po\<lparr>followerReadDelay := delay\<rparr>)"

definition MaxRevisionStalenessPercent :: "real \<Rightarrow> Option" where
  "MaxRevisionStalenessPercent stalenessPercent =
     (\<lambda>po. po\<lparr>maxRevisionStalenessPercent := stalenessPercent\<rparr>)"

definition GCWindow :: "Duration \<Rightarrow> Option" where
  "GCWindow window = (\<lambda>po. po\<lparr>gcWindow := window\<rparr>)"

definition MaxRetries :: "8 word \<Rightarrow> Option" where
  "MaxRetries n = (\<lambda>po. po\<lparr>maxRetries := n\<rparr>)"

definition OverlapStrategy :: "string \<Rightarrow> Option" where
  "OverlapStrategy strategy = (\<lambda>po. po\<lparr>overlapStrategy := strategy\<rparr>)"

definition OverlapKey :: "string \<Rightarrow> Option" where
  "OverlapKey key = (\<lambda>po. po\<lparr>overlapKey := key\<rparr>)"

definition DisableStats :: "bool \<Rightarrow> Option" where
  "DisableStats disable = (\<lambda>po. po\<lparr>disableStats := disable\<rparr>)"

definition WithEnablePrometheusStats :: "bool \<Rightarrow> Option" where
  "WithEnablePrometheusStats b = (\<lambda>po. po\<lparr>enablePrometheusStats := b\<rparr>)"

text \<open>
  An option leaves a field alone when it maps every options value to one with the same
  field; it sets the field to \<open>v\<close> when the field is \<open>v\<close> afterwards, whatever it was.
\<close>

definition leaves :: "(crdbOptions \<Rightarrow> 'a) \<Rightarrow> Option \<Rightarrow> bool" where
  "leaves field option = (\<forall>po. field (option po) = field po)"

definition sets :: "(crdbOptions \<Rightarrow> 'a) \<Rightarrow> 'a \<Rightarrow> Option \<Rightarrow> bool" where
  "sets field v option = (\<forall>po. field (option po) = v)"


section \<open>Separating-context datastore proxy (package proxy)\<close>

subsection \<open>Go contexts\<close>

text \<open>
  A \<^verbatim>\<open>context.Context\<close> is a chain of derivations from \<^verbatim>\<open>context.Background()\<close>:
  each link attaches a value to a key, a cancel function, or a deadline (with its cancel
  function). Cancel functions are identified by numbers, instants are nanosecond counts.
\<close>

datatype Span = NoopSpan | RecordingSpan nat

type_synonym Logger = nat

datatype ctx_key = SpanKey | LoggerKey | OtherKey string

datatype ctx_value = SpanValue Span | LoggerValue Logger | OtherValue string

datatype Context =
    Background
  | WithValue Context ctx_key ctx_value
  | WithCancel Context nat
  | WithDeadline Context int nat

text \<open>\<^verbatim>\<open>ctx.Value(key)\<close>: the innermost value attached to the key, nil when there is none.\<close>

fun Value :: "Context \<Rightarrow> ctx_key \<Rightarrow> ctx_value option" where
  "Value Background key = None"
| "Value (WithValue parent k v) key = (if k = key then Some v else Value parent key)"
| "Value (WithCancel parent c) key = Value parent key"
| "Value (WithDeadline parent d c) key = Value parent key"

text \<open>\<^verbatim>\<open>ctx.Deadline()\<close>: the earliest deadline of the chain, if any.\<close>

fun Deadline :: "Context \<Rightarrow> int option" where
  "Deadline Background = None"
| "Deadline (WithValue parent k v) = Deadline parent"
| "Deadline (WithCancel parent c) = Deadline parent"
| "Deadline (WithDeadline parent d c) =
     (case Deadline parent of None \<Rightarrow> Some d | Some d' \<Rightarrow> Some (min d' d))"

text \<open>
  The state of the world a context is observed in: the cancel functions called so far and
  the current instant. \<^verbatim>\<open>ctx.Done()\<close> is closed (\<^verbatim>\<open>ctx.Err() != nil\<close>) when a cancel
  function of the chain has been called or a deadline of the chain has been reached.
\<close>

record World =
  cancelled :: "nat set"
  now :: int

fun Done :: "World \<Rightarrow> Context \<Rightarrow> bool" where
  "Done w Background = False"
| "Done w (WithValue parent k v) = Done w parent"
| "Done w (WithCancel parent c) = (c \<in> cancelled w \<or> Done w parent)"
| "Done w (WithDeadline parent d c) = (d \<le> now w \<or> c \<in> cancelled w \<or> Done w parent)"

text \<open>
  \<^verbatim>\<open>trace.SpanFromContext\<close> and \<^verbatim>\<open>trace.ContextWithSpan\<close> of OpenTelemetry: the span
  stored in the context, the no-op span when there is none.
\<close>

definition SpanFromContext :: "Context \<Rightarrow> Span" where
  "SpanFromContext ctx = (case Value ctx SpanKey of Some (SpanValue sp) \<Rightarrow> sp | _ \<Rightarrow> NoopSpan)"

definition ContextWithSpan :: "Context \<Rightarrow> Span \<Rightarrow> Context" where
  "ContextWithSpan parent sp = WithValue parent SpanKey (SpanValue sp)"

text \<open>
  Modelled from the spec: the package \<^verbatim>\<open>internal/logging\<close> is not among the sources.
  The spec speaks of the log metadata a context carries: \<^verbatim>\<open>log.Ctx\<close> is the logger
  stored in the context (a nil pointer, \<open>None\<close>, when there is none, the case the caller
  tests for) and \<^verbatim>\<open>logger.WithContext\<close> stores the logger in a context.
\<close>

definition log_Ctx :: "Context \<Rightarrow> Logger option" where
  "log_Ctx ctx = (case Value ctx LoggerKey of Some (LoggerValue l) \<Rightarrow> Some l | _ \<Rightarrow> None)"

definition Logger_WithContext :: "Logger \<Rightarrow> Context \<Rightarrow> Context" where
  "Logger_WithContext l ctx = WithValue ctx LoggerKey (LoggerValue l)"

definition SeparateContextWithTracing :: "Context \<Rightarrow> Context" where
  "SeparateContextWithTracing ctx =
     (let sp = SpanFromContext ctx;
          ctxWithObservability = ContextWithSpan Background sp;
          loggerFromContext = log_Ctx ctx
      in case loggerFromContext of
           Some l \<Rightarrow> Logger_WithContext l ctxWithObservability
         | None \<Rightarrow> ctxWithObservability)"

subsection \<open>The proxy\<close>

text \<open>
  A call on a \<^verbatim>\<open>datastore.Datastore\<close> or a \<^verbatim>\<open>datastore.Reader\<close>: the method with its
  arguments. Revisions, transaction functions, filters and query options are opaque here.
  Each method of \<^verbatim>\<open>ctxProxy\<close> and \<^verbatim>\<open>ctxReader\<close> makes one call on its delegate and returns
  what the delegate returns; the definitions below give that call.
\<close>

datatype ('rev, 'fn) datastore_call =
    ReadWriteTx Context 'fn
  | OptimizedRevision Context
  | CheckRevision Context 'rev
  | HeadRevision Context
  | RevisionFromString string
  | Watch Context 'rev
  | Features Context
  | Statistics Context
  | ReadyState Context
  | Close
  | SnapshotReader 'rev

datatype ('flt, 'opt) reader_call =
    ReadCaveatByName Context string
  | ListAllCaveats Context
  | LookupCaveatsWithNames Context "string list"
  | ListAllNamespaces Context
  | LookupNamespacesWithNames Context "string list"
  | ReadNamespaceByName Context string
  | QueryRelationships Context 'flt "'opt list"
  | ReverseQueryRelationships Context 'flt "'opt list"

definition ctxProxy_ReadWriteTx :: "Context \<Rightarrow> 'fn \<Rightarrow> ('rev, 'fn) datastore_call" where
  "ctxProxy_ReadWriteTx ctx f = ReadWriteTx ctx f"

definition ctxProxy_OptimizedRevision :: "Context \<Rightarrow> ('rev, 'fn) datastore_call" where
  "ctxProxy_OptimizedRevision ctx = OptimizedRevision (SeparateContextWithTracing ctx)"

definition ctxProxy_CheckRevision :: "Context \<Rightarrow> 'rev \<Rightarrow> ('rev, 'fn) datastore_call" where
  "ctxProxy_CheckRevision ctx revision = CheckRevision (SeparateContextWithTracing ctx) revision"

definition ctxProxy_HeadRevision :: "Context \<Rightarrow> ('rev, 'fn) datastore_call" where
  "ctxProxy_HeadRevision ctx = HeadRevision (SeparateContextWithTracing ctx)"

definition ctxProxy_RevisionFromString :: "string \<Rightarrow> ('rev, 'fn) datastore_call" where
  "ctxProxy_RevisionFromString serialized = RevisionFromString serialized"

definition ctxProxy_Watch :: "Context \<Rightarrow> 'rev \<Rightarrow> ('rev, 'fn) datastore_call" where
  "ctxProxy_Watch ctx afterRevision = Watch ctx afterRevision"

definition ctxProxy_Features :: "Context \<Rightarrow> ('rev, 'fn) datastore_call" where
  "ctxProxy_Features ctx = Features (SeparateContextWithTracing ctx)"

definition ctxProxy_Statistics :: "Context \<Rightarrow> ('rev, 'fn) datastore_call" where
  "ctxProxy_Statistics ctx = Statistics (SeparateContextWithTracing ctx)"

definition ctxProxy_ReadyState :: "Context \<Rightarrow> ('rev, 'fn) datastore_call" where
  "ctxProxy_ReadyState ctx = ReadyState (SeparateContextWithTracing ctx)"

definition ctxProxy_Close :: "('rev, 'fn) datastore_call" where
  "ctxProxy_Close = Close"

definition ctxProxy_SnapshotReader :: "'rev \<Rightarrow> ('rev, 'fn) datastore_call" where
  "ctxProxy_SnapshotReader r = SnapshotReader r"

definition ctxReader_ReadCaveatByName :: "Context \<Rightarrow> string \<Rightarrow> ('flt, 'opt) reader_call" where
  "ctxReader_ReadCaveatByName ctx name = ReadCaveatByName (SeparateContextWithTracing ctx) name"

definition ctxReader_ListAllCaveats :: "Context \<Rightarrow> ('flt, 'opt) reader_call" where
  "ctxReader_ListAllCaveats ctx = ListAllCaveats (SeparateContextWithTracing ctx)"

definition ctxReader_LookupCaveatsWithNames ::
  "Context \<Rightarrow> string list \<Rightarrow> ('flt, 'opt) reader_call" where
  "ctxReader_LookupCaveatsWithNames ctx caveatNames =
     LookupCaveatsWithNames (SeparateContextWithTracing ctx) caveatNames"

definition ctxReader_ListAllNamespaces :: "Context \<Rightarrow> ('flt, 'opt) reader_call" where
  "ctxReader_ListAllNamespaces ctx = ListAllNamespaces (SeparateContextWithTracing ctx)"

definition ctxReader_LookupNamespacesWithNames ::
  "Context \<Rightarrow> string list \<Rightarrow> ('flt, 'opt) reader_call" where
  "ctxReader_LookupNamespacesWithNames ctx nsNames =
     LookupNamespacesWithNames (SeparateContextWithTracing ctx) nsNames"

definition ctxReader_ReadNamespaceByName :: "Context \<Rightarrow> string \<Rightarrow> ('flt, 'opt) reader_call" where
  "ctxReader_ReadNamespaceByName ctx nsName =
     ReadNamespaceByName (SeparateContextWithTracing ctx) nsName"

definition ctxReader_QueryRelationships ::
  "Context \<Rightarrow> 'flt \<Rightarrow> 'opt list \<Rightarrow> ('flt, 'opt) reader_call" where
  "ctxReader_QueryRelationships ctx flt options =
     QueryRelationships (SeparateContextWithTracing ctx) flt options"

definition ctxReader_ReverseQueryRelationships ::
  "Context \<Rightarrow> 'flt \<Rightarrow> 'opt list \<Rightarrow> ('flt, 'opt) reader_call" where
  "ctxReader_ReverseQueryRelationships ctx subjectsFilter options =
     ReverseQueryRelationships (SeparateContextWithTracing ctx) subjectsFilter options"

text \<open>
  Calling through the interface: the call a client makes on the proxy, mapped to the call
  the proxy makes on its delegate.
\<close>

fun ctxProxy :: "('rev, 'fn) datastore_call \<Rightarrow> ('rev, 'fn) datastore_call" where
  "ctxProxy (ReadWriteTx ctx f) = ctxProxy_ReadWriteTx ctx f"
| "ctxProxy (OptimizedRevision ctx) = ctxProxy_OptimizedRevision ctx"
| "ctxProxy (CheckRevision ctx revision) = ctxProxy_CheckRevision ctx revision"
| "ctxProxy (HeadRevision ctx) = ctxProxy_HeadRevision ctx"
| "ctxProxy (RevisionFromString serialized) = ctxProxy_RevisionFromString serialized"
| "ctxProxy (Watch ctx afterRevision) = ctxProxy_Watch ctx afterRevision"
| "ctxProxy (Features ctx) = ctxProxy_Features ctx"
| "ctxProxy (Statistics ctx) = ctxProxy_Statistics ctx"
| "ctxProxy (ReadyState ctx) = ctxProxy_ReadyState ctx"
| "ctxProxy Close = ctxProxy_Close"
| "ctxProxy (SnapshotReader r) = ctxProxy_SnapshotReader r"

fun ctxReader :: "('flt, 'opt) reader_call \<Rightarrow> ('flt, 'opt) reader_call" where
  "ctxReader (ReadCaveatByName ctx name) = ctxReader_ReadCaveatByName ctx name"
| "ctxReader (ListAllCaveats ctx) = ctxReader_ListAllCaveats ctx"
| "ctxReader (LookupCaveatsWithNames ctx caveatNames) =
     ctxReader_LookupCaveatsWithNames ctx caveatNames"
| "ctxReader (ListAllNamespaces ctx) = ctxReader_ListAllNamespaces ctx"
| "ctxReader (LookupNamespacesWithNames ctx nsNames) =
     ctxReader_LookupNamespacesWithNames ctx nsNames"
| "ctxReader (ReadNamespaceByName ctx nsName) = ctxReader_ReadNamespaceByName ctx nsName"
| "ctxReader (QueryRelationships ctx flt options) =
     ctxReader_QueryRelationships ctx flt options"
| "ctxReader (ReverseQueryRelationships ctx subjectsFilter options) =
     ctxReader_ReverseQueryRelationships ctx subjectsFilter options"

text \<open>The context argument of a call, for the methods that take one.\<close>

fun datastore_call_ctx :: "('rev, 'fn) datastore_call \<Rightarrow> Context option" where
  "datastore_call_ctx (ReadWriteTx ctx f) = Some ctx"
| "datastore_call_ctx (OptimizedRevision ctx) = Some ctx"
| "datastore_call_ctx (CheckRevision ctx revision) = Some ctx"
| "datastore_call_ctx (HeadRevision ctx) = Some ctx"
| "datastore_call_ctx (RevisionFromString serialized) = None"
| "datastore_call_ctx (Watch ctx afterRevision) = Some ctx"
| "datastore_call_ctx (Features ctx) = Some ctx"
| "datastore_call_ctx (Statistics ctx) = Some ctx"
| "datastore_call_ctx (ReadyState ctx) = Some ctx"
| "datastore_call_ctx Close = None"
| "datastore_call_ctx (SnapshotReader r) = None"

fun reader_call_ctx :: "('flt, 'opt) reader_call \<Rightarrow> Context" where
  "reader_call_ctx (ReadCaveatByName ctx name) = ctx"
| "reader_call_ctx (ListAllCaveats ctx) = ctx"
| "reader_call_ctx (LookupCaveatsWithNames ctx caveatNames) = ctx"
| "reader_call_ctx (ListAllNamespaces ctx) = ctx"
| "reader_call_ctx (LookupNamespacesWithNames ctx nsNames) = ctx"
| "reader_call_ctx (ReadNamespaceByName ctx nsName) = ctx"
| "reader_call_ctx (QueryRelationships ctx flt options) = ctx"
| "reader_call_ctx (ReverseQueryRelationships ctx subjectsFilter options) = ctx"

text \<open>
  What the proxy is said to guarantee about the context \<open>ctx'\<close> it hands to the delegate
  for an incoming context \<open>ctx\<close>: the same span and the same logger, no other value, no
  deadline, and never done, whatever is cancelled and whatever the time.
\<close>

definition severed :: "Context \<Rightarrow> Context \<Rightarrow> bool" where
  "severed ctx ctx' =
     (SpanFromContext ctx' = SpanFromContext ctx
      \<and> log_Ctx ctx' = log_Ctx ctx
      \<and> (\<forall>name. Value ctx' (OtherKey name) = None)
      \<and> Deadline ctx' = None
      \<and> (\<forall>w. \<not> Done w ctx'))"

fun is_ReadWriteTx_or_Watch :: "('rev, 'fn) datastore_call \<Rightarrow> bool" where
  "is_ReadWriteTx_or_Watch (ReadWriteTx ctx f) = True"
| "is_ReadWriteTx_or_Watch (Watch ctx afterRevision) = True"
| "is_ReadWriteTx_or_Watch call = False"

text \<open>
  A request context as a server hands it to a handler: a span, a logger and a request
  value, the client's cancel function (number 0) and a deadline at instant 100.
\<close>

definition request_ctx :: Context where
  "request_ctx = WithDeadline (WithCancel (WithValue (WithValue (WithValue Background
       SpanKey (SpanValue (RecordingSpan 7))) LoggerKey (LoggerValue 3))
       (OtherKey ''user'') (OtherValue ''alice'')) 0) 100 1"

section \<open>Validation rules of the core messages (proto/internal/core/v1/core.proto)\<close>

subsection \<open>Regular expressions\<close>

text \<open>
  The \<^verbatim>\<open>pattern\<close> rules are regular expressions in Go's syntax, anchored at both ends
  (\<^verbatim>\<open>^...$\<close>), so a string satisfies the rule when the whole string matches. Strings are
  byte strings. The patterns of this file use literals, character classes made of ASCII
  ranges, concatenation, alternation, \<^verbatim>\<open>?\<close> and the counted repetitions \<^verbatim>\<open>{m,n}\<close> and
  \<^verbatim>\<open>{m,}\<close>; since every class is ASCII, matching bytes and matching runes agree.
\<close>

datatype regex =
    Zero
  | Eps
  | Class "(char \<times> char) list"
  | Seq regex regex
  | Alt regex regex
  | Rep regex nat "nat option"

text \<open>A class is a list of inclusive ranges; a literal is a class of one character.\<close>

definition in_class :: "(char \<times> char) list \<Rightarrow> char \<Rightarrow> bool" where
  "in_class ranges c =
     list_ex (\<lambda>(lo, hi). (of_char lo :: nat) \<le> of_char c \<and> (of_char c :: nat) \<le> of_char hi) ranges"

definition Lit :: "char \<Rightarrow> regex" where
  "Lit c = Class [(c, c)]"

definition Quest :: "regex \<Rightarrow> regex" where
  "Quest r = Rep r 0 (Some 1)"

text \<open>Matching by derivatives: \<open>nullable r\<close> tells whether \<open>r\<close> matches the empty string,
  \<open>deriv c r\<close> matches the strings \<open>w\<close> such that \<open>r\<close> matches \<open>c # w\<close>.\<close>

fun nullable :: "regex \<Rightarrow> bool" where
  "nullable Zero = False"
| "nullable Eps = True"
| "nullable (Class ranges) = False"
| "nullable (Seq r s) = (nullable r \<and> nullable s)"
| "nullable (Alt r s) = (nullable r \<or> nullable s)"
| "nullable (Rep r m None) = (m = 0 \<or> nullable r)"
| "nullable (Rep r m (Some n)) = (m \<le> n \<and> (m = 0 \<or> nullable r))"

fun deriv :: "char \<Rightarrow> regex \<Rightarrow> regex" where
  "deriv c Zero = Zero"
| "deriv c Eps = Zero"
| "deriv c (Class ranges) = (if in_class ranges c then Eps else Zero)"
| "deriv c (Seq r s) =
     (if nullable r then Alt (Seq (deriv c r) s) (deriv c s) else Seq (deriv c r) s)"
| "deriv c (Alt r s) = Alt (deriv c r) (deriv c s)"
| "deriv c (Rep r m None) = Seq (deriv c r) (Rep r (m - 1) None)"
| "deriv c (Rep r m (Some n)) =
     (if n = 0 \<or> n < m then Zero else Seq (deriv c r) (Rep r (m - 1) (Some (n - 1))))"

fun derivs :: "string \<Rightarrow> regex \<Rightarrow> regex" where
  "derivs [] r = r"
| "derivs (c # w) r = derivs w (deriv c r)"

definition MatchString :: "regex \<Rightarrow> string \<Rightarrow> bool" where
  "MatchString r w = nullable (derivs w r)"

text \<open>The language of a regular expression, against which the matcher is proved correct.\<close>

definition conc :: "string set \<Rightarrow> string set \<Rightarrow> string set" where
  "conc A B = {u @ v | u v. u \<in> A \<and> v \<in> B}"

fun pow :: "string set \<Rightarrow> nat \<Rightarrow> string set" where
  "pow A 0 = {[]}"
| "pow A (Suc k) = conc A (pow A k)"

fun lang :: "regex \<Rightarrow> string set" where
  "lang Zero = {}"
| "lang Eps = {[]}"
| "lang (Class ranges) = {[c] | c. in_class ranges c}"
| "lang (Seq r s) = conc (lang r) (lang s)"
| "lang (Alt r s) = lang r \<union> lang s"
| "lang (Rep r m None) = (\<Union>k \<in> {m..}. pow (lang r) k)"
| "lang (Rep r m (Some n)) = (\<Union>k \<in> {m..n}. pow (lang r) k)"

text \<open>The left quotient of a language by a character.\<close>

definition Deriv :: "char \<Rightarrow> string set \<Rightarrow> string set" where
  "Deriv c A = {w. c # w \<in> A}"

subsection \<open>The patterns of the file\<close>

definition lower :: "(char \<times> char) list" where
  "lower = [(CHR ''a'', CHR ''z'')]"

definition lower_digit :: "(char \<times> char) list" where
  "lower_digit = [(CHR ''a'', CHR ''z''), (CHR ''0'', CHR ''9'')]"

definition lower_digit_underscore :: "(char \<times> char) list" where
  "lower_digit_underscore = [(CHR ''a'', CHR ''z''), (CHR ''0'', CHR ''9''), (CHR ''_'', CHR ''_'')]"

text \<open>\<^verbatim>\<open>[a-z][a-z0-9_]{1,n}[a-z0-9]\<close>\<close>

definition ident_pattern :: "nat \<Rightarrow> regex" where
  "ident_pattern n =
     Seq (Class lower) (Seq (Rep (Class lower_digit_underscore) 1 (Some n)) (Class lower_digit))"

text \<open>\<^verbatim>\<open>^([a-z][a-z0-9_]{1,61}[a-z0-9]/)?[a-z][a-z0-9_]{1,62}[a-z0-9]$\<close>\<close>

definition namespace_pattern :: regex where
  "namespace_pattern =
     Seq (Quest (Seq (Class lower) (Seq (Rep (Class lower_digit_underscore) 1 (Some 61))
                   (Seq (Class lower_digit) (Lit CHR ''/'')))))
         (ident_pattern 62)"

text \<open>\<^verbatim>\<open>[a-zA-Z0-9/_|\-=+]\<close>\<close>

definition object_id_chars :: "(char \<times> char) list" where
  "object_id_chars = [(CHR ''a'', CHR ''z''), (CHR ''A'', CHR ''Z''), (CHR ''0'', CHR ''9''),
     (CHR ''/'', CHR ''/''), (CHR ''_'', CHR ''_''), (CHR ''|'', CHR ''|''),
     (CHR ''-'', CHR ''-''), (CHR ''='', CHR ''=''), (CHR ''+'', CHR ''+'')]"

text \<open>\<^verbatim>\<open>^(([a-zA-Z0-9/_|\-=+]{1,})|\*)$\<close>\<close>

definition object_id_pattern :: regex where
  "object_id_pattern = Alt (Rep (Class object_id_chars) 1 None) (Lit CHR ''*'')"

text \<open>\<^verbatim>\<open>^(\.\.\.|[a-z][a-z0-9_]{1,62}[a-z0-9])$\<close>\<close>

definition relation_pattern :: regex where
  "relation_pattern =
     Alt (Seq (Lit CHR ''.'') (Seq (Lit CHR ''.'') (Lit CHR ''.''))) (ident_pattern 62)"

text \<open>\<^verbatim>\<open>^[a-z][a-z0-9_]{1,62}[a-z0-9]$\<close>\<close>

definition relation_name_pattern :: regex where
  "relation_name_pattern = ident_pattern 62"

text \<open>\<^verbatim>\<open>[a-zA-Z0-9_]\<close> and \<^verbatim>\<open>[a-zA-Z0-9/_|-]\<close>\<close>

definition caveat_first_chars :: "(char \<times> char) list" where
  "caveat_first_chars = [(CHR ''a'', CHR ''z''), (CHR ''A'', CHR ''Z''), (CHR ''0'', CHR ''9''),
     (CHR ''_'', CHR ''_'')]"

definition caveat_chars :: "(char \<times> char) list" where
  "caveat_chars = [(CHR ''a'', CHR ''z''), (CHR ''A'', CHR ''Z''), (CHR ''0'', CHR ''9''),
     (CHR ''/'', CHR ''/''), (CHR ''_'', CHR ''_''), (CHR ''|'', CHR ''|''),
     (CHR ''-'', CHR ''-'')]"

text \<open>\<^verbatim>\<open>^(([a-zA-Z0-9_][a-zA-Z0-9/_|-]{0,127})|\*)$\<close>\<close>

definition caveat_name_pattern :: regex where
  "caveat_name_pattern =
     Alt (Seq (Class caveat_first_chars) (Rep (Class caveat_chars) 0 (Some 127))) (Lit CHR ''*'')"

subsection \<open>Messages and their validation\<close>

text \<open>
  The \<^verbatim>\<open>Validate\<close> method that protoc-gen-validate generates for a message checks the
  \<^verbatim>\<open>(validate.rules)\<close> of its fields in declaration order, validates the embedded
  messages, and returns the first violation (nil, here \<open>None\<close>, when there is none). A
  violation names the field and the rule; the violation of an embedded message is
  wrapped. A message field is a pointer: nil is \<open>None\<close> where a rule tests for it.
\<close>

datatype rule =
    MaxBytes | Pattern | MaxLen | MinPairs | MaxPairs | MinItems | MaxItems
  | Required | DefinedOnly | AnyIn

datatype validation_error =
    Violation string rule
  | ItemViolation string nat rule
  | Embedded string validation_error
  | EmbeddedItem string nat validation_error
  | EmbeddedValue string string validation_error

record ObjectAndRelation =
  namespace :: string
  object_id :: string
  relation :: string

definition ObjectAndRelation_Validate :: "ObjectAndRelation \<Rightarrow> validation_error option" where
  "ObjectAndRelation_Validate m =
     (if length (namespace m) > 128 then Some (Violation ''namespace'' MaxBytes)
      else if \<not> MatchString namespace_pattern (namespace m)
        then Some (Violation ''namespace'' Pattern)
      else if length (object_id m) > 1024 then Some (Violation ''object_id'' MaxBytes)
      else if \<not> MatchString object_id_pattern (object_id m)
        then Some (Violation ''object_id'' Pattern)
      else if length (relation m) > 64 then Some (Violation ''relation'' MaxBytes)
      else if \<not> MatchString relation_pattern (relation m)
        then Some (Violation ''relation'' Pattern)
      else None)"

record SourcePosition =
  zero_indexed_line_number :: "64 word"
  zero_indexed_column_position :: "64 word"

definition SourcePosition_Validate :: "SourcePosition \<Rightarrow> validation_error option" where
  "SourcePosition_Validate m = None"

text \<open>A \<^verbatim>\<open>google.protobuf.Any\<close>: a type URL and the serialized message.\<close>

record Any =
  type_url :: string
  any_value :: string

record Metadata =
  metadata_message :: "Any option list"

definition metadata_type_urls :: "string list" where
  "metadata_type_urls =
     [''type.googleapis.com/impl.v1.DocComment'', ''type.googleapis.com/impl.v1.RelationMetadata'']"

fun Metadata_items_Validate :: "nat \<Rightarrow> Any option list \<Rightarrow> validation_error option" where
  "Metadata_items_Validate idx [] = None"
| "Metadata_items_Validate idx (None # items) =
     Some (ItemViolation ''metadata_message'' idx Required)"
| "Metadata_items_Validate idx (Some a # items) =
     (if type_url a \<notin> set metadata_type_urls
      then Some (ItemViolation ''metadata_message'' idx AnyIn)
      else Metadata_items_Validate (Suc idx) items)"

definition Metadata_Validate :: "Metadata \<Rightarrow> validation_error option" where
  "Metadata_Validate m =
     (if length (metadata_message m) < 1 then Some (Violation ''metadata_message'' MinItems)
      else Metadata_items_Validate 0 (metadata_message m))"

datatype CaveatTypeReference =
  CaveatTypeReference (type_name: string) (child_types: "CaveatTypeReference list")

fun CaveatTypeReference_Validate :: "CaveatTypeReference \<Rightarrow> validation_error option"
  and CaveatTypeReference_items_Validate ::
    "nat \<Rightarrow> CaveatTypeReference list \<Rightarrow> validation_error option" where
  "CaveatTypeReference_Validate (CaveatTypeReference name children) =
     (if length children > 1 then Some (Violation ''child_types'' MaxItems)
      else CaveatTypeReference_items_Validate 0 children)"
| "CaveatTypeReference_items_Validate idx [] = None"
| "CaveatTypeReference_items_Validate idx (item # items) =
     (case CaveatTypeReference_Validate item of
        Some err \<Rightarrow> Some (EmbeddedItem ''child_types'' idx err)
      | None \<Rightarrow> CaveatTypeReference_items_Validate (Suc idx) items)"

text \<open>
  A \<^verbatim>\<open>map\<close> field is a finite map. The generated code validates the values in the order
  of their sorted keys; \<open>keys\<close> below is that sorted list.
\<close>

record CaveatDefinition =
  name :: string
  serialized_expression :: string
  parameter_types :: "(string, CaveatTypeReference) fmap"
  metadata :: "Metadata option"
  source_position :: "SourcePosition option"

fun parameter_types_Validate ::
  "(string, CaveatTypeReference) fmap \<Rightarrow> string list \<Rightarrow> validation_error option" where
  "parameter_types_Validate m [] = None"
| "parameter_types_Validate m (key # keys) =
     (case fmlookup m key of
        None \<Rightarrow> parameter_types_Validate m keys
      | Some val \<Rightarrow>
          (case CaveatTypeReference_Validate val of
             Some err \<Rightarrow> Some (EmbeddedValue ''parameter_types'' key err)
           | None \<Rightarrow> parameter_types_Validate m keys))"

definition embedded ::
  "string \<Rightarrow> ('a \<Rightarrow> validation_error option) \<Rightarrow> 'a option \<Rightarrow> validation_error option" where
  "embedded field validate m =
     (case m of None \<Rightarrow> None
      | Some v \<Rightarrow> (case validate v of None \<Rightarrow> None | Some err \<Rightarrow> Some (Embedded field err)))"

definition CaveatDefinition_Validate :: "CaveatDefinition \<Rightarrow> validation_error option" where
  "CaveatDefinition_Validate m =
     (if length (name m) > 128 then Some (Violation ''name'' MaxBytes)
      else if \<not> MatchString caveat_name_pattern (name m) then Some (Violation ''name'' Pattern)
      else if length (serialized_expression m) > 4096
        then Some (Violation ''serialized_expression'' MaxLen)
      else if fcard (fmdom (parameter_types m)) < 1
        then Some (Violation ''parameter_types'' MinPairs)
      else if fcard (fmdom (parameter_types m)) > 20
        then Some (Violation ''parameter_types'' MaxPairs)
      else case parameter_types_Validate (parameter_types m)
                  (sorted_list_of_fset (fmdom (parameter_types m))) of
        Some err \<Rightarrow> Some err
      | None \<Rightarrow>
          (case embedded ''metadata'' Metadata_Validate (metadata m) of
             Some err \<Rightarrow> Some err
           | None \<Rightarrow> embedded ''source_position'' SourcePosition_Validate (source_position m)))"

text \<open>
  An enum field holds a 32-bit number; \<^verbatim>\<open>defined_only\<close> asks for one of the declared
  values (\<^verbatim>\<open>TUPLE_OBJECT = 0\<close>, \<^verbatim>\<open>TUPLE_USERSET_OBJECT = 1\<close>).
\<close>

record ComputedUserset =
  object :: "32 word"
  relation :: string
  source_position :: "SourcePosition option"

definition ComputedUserset_Validate :: "ComputedUserset \<Rightarrow> validation_error option" where
  "ComputedUserset_Validate m =
     (if object m \<notin> {0, 1} then Some (Violation ''object'' DefinedOnly)
      else if length (ComputedUserset.relation m) > 64 then Some (Violation ''relation'' MaxBytes)
      else if \<not> MatchString relation_name_pattern (ComputedUserset.relation m)
        then Some (Violation ''relation'' Pattern)
      else embedded ''source_position'' SourcePosition_Validate
             (ComputedUserset.source_position m))"

record Tupleset =
  relation :: string

definition Tupleset_Validate :: "Tupleset \<Rightarrow> validation_error option" where
  "Tupleset_Validate m =
     (if length (Tupleset.relation m) > 64 then Some (Violation ''relation'' MaxBytes)
      else if \<not> MatchString relation_name_pattern (Tupleset.relation m)
        then Some (Violation ''relation'' Pattern)
      else None)"

record TupleToUserset =
  tupleset :: "Tupleset option"
  computed_userset :: "ComputedUserset option"
  source_position :: "SourcePosition option"

definition required ::
  "string \<Rightarrow> ('a \<Rightarrow> validation_error option) \<Rightarrow> 'a option \<Rightarrow> validation_error option" where
  "required field validate m =
     (case m of None \<Rightarrow> Some (Violation field Required)
      | Some v \<Rightarrow> (case validate v of None \<Rightarrow> None | Some err \<Rightarrow> Some (Embedded field err)))"

definition TupleToUserset_Validate :: "TupleToUserset \<Rightarrow> validation_error option" where
  "TupleToUserset_Validate m =
     (case required ''tupleset'' Tupleset_Validate (tupleset m) of
        Some err \<Rightarrow> Some err
      | None \<Rightarrow>
          (case required ''computed_userset'' ComputedUserset_Validate (computed_userset m) of
             Some err \<Rightarrow> Some err
           | None \<Rightarrow> embedded ''source_position'' SourcePosition_Validate
                       (TupleToUserset.source_position m)))"

text \<open>
  A userset rewrite is one of \<^verbatim>\<open>union\<close>, \<^verbatim>\<open>intersection\<close> and \<^verbatim>\<open>exclusion\<close>, each
  holding a \<^verbatim>\<open>SetOperation\<close>: the list of its children. A \<^verbatim>\<open>oneof\<close> that is not set is
  \<open>None\<close>.
\<close>

datatype UsersetRewrite =
  UsersetRewrite (rewrite_operation: "rewrite_operation option")
    (rewrite_source_position: "SourcePosition option")
and rewrite_operation =
    UsersetRewrite_Union "SetOperation option"
  | UsersetRewrite_Intersection "SetOperation option"
  | UsersetRewrite_Exclusion "SetOperation option"
and SetOperation =
  SetOperation (child: "Child option list")
and Child =
  Child (child_type: "child_type option") (child_source_position: "SourcePosition option")
    (operation_path: "32 word list")
and child_type =
    Child_This
  | Child_ComputedUserset "ComputedUserset option"
  | Child_TupleToUserset "TupleToUserset option"
  | Child_UsersetRewrite "UsersetRewrite option"
  | Child_Nil

fun UsersetRewrite_Validate :: "UsersetRewrite \<Rightarrow> validation_error option"
  and rewrite_operation_Validate :: "rewrite_operation \<Rightarrow> validation_error option"
  and required_SetOperation :: "string \<Rightarrow> SetOperation option \<Rightarrow> validation_error option"
  and SetOperation_Validate :: "SetOperation \<Rightarrow> validation_error option"
  and SetOperation_items_Validate :: "nat \<Rightarrow> Child option list \<Rightarrow> validation_error option"
  and Child_Validate :: "Child \<Rightarrow> validation_error option"
  and child_type_Validate :: "child_type \<Rightarrow> validation_error option" where
  "UsersetRewrite_Validate (UsersetRewrite None pos) =
     (case embedded ''source_position'' SourcePosition_Validate pos of
        Some err \<Rightarrow> Some err
      | None \<Rightarrow> Some (Violation ''rewrite_operation'' Required))"
| "UsersetRewrite_Validate (UsersetRewrite (Some operation) pos) =
     (case embedded ''source_position'' SourcePosition_Validate pos of
        Some err \<Rightarrow> Some err
      | None \<Rightarrow> rewrite_operation_Validate operation)"
| "rewrite_operation_Validate (UsersetRewrite_Union so) = required_SetOperation ''union'' so"
| "rewrite_operation_Validate (UsersetRewrite_Intersection so) =
     required_SetOperation ''intersection'' so"
| "rewrite_operation_Validate (UsersetRewrite_Exclusion so) =
     required_SetOperation ''exclusion'' so"
| "required_SetOperation field None = Some (Violation field Required)"
| "required_SetOperation field (Some so) =
     (case SetOperation_Validate so of None \<Rightarrow> None | Some err \<Rightarrow> Some (Embedded field err))"
| "SetOperation_Validate (SetOperation children) =
     (if length children < 1 then Some (Violation ''child'' MinItems)
      else SetOperation_items_Validate 0 children)"
| "SetOperation_items_Validate idx [] = None"
| "SetOperation_items_Validate idx (None # items) = Some (ItemViolation ''child'' idx Required)"
| "SetOperation_items_Validate idx (Some item # items) =
     (case Child_Validate item of
        Some err \<Rightarrow> Some (EmbeddedItem ''child'' idx err)
      | None \<Rightarrow> SetOperation_items_Validate (Suc idx) items)"
| "Child_Validate (Child None pos path) =
     (case embedded ''source_position'' SourcePosition_Validate pos of
        Some err \<Rightarrow> Some err
      | None \<Rightarrow> Some (Violation ''child_type'' Required))"
| "Child_Validate (Child (Some ct) pos path) =
     (case embedded ''source_position'' SourcePosition_Validate pos of
        Some err \<Rightarrow> Some err
      | None \<Rightarrow> child_type_Validate ct)"
| "child_type_Validate Child_This = None"
| "child_type_Validate (Child_ComputedUserset cu) =
     required ''computed_userset'' ComputedUserset_Validate cu"
| "child_type_Validate (Child_TupleToUserset ttu) =
     required ''tuple_to_userset'' TupleToUserset_Validate ttu"
| "child_type_Validate (Child_UsersetRewrite None) = Some (Violation ''userset_rewrite'' Required)"
| "child_type_Validate (Child_UsersetRewrite (Some rewrite)) =
     (case UsersetRewrite_Validate rewrite of
        None \<Rightarrow> None
      | Some err \<Rightarrow> Some (Embedded ''userset_rewrite'' err))"
| "child_type_Validate Child_Nil = None"

subsection \<open>The patterns in elementary terms\<close>

text \<open>
  What the sentences about validation speak of: a lowercase identifier starts with a
  lowercase letter, goes on with lowercase letters, digits and underscores, and ends with
  a lowercase letter or a digit; \<open>lowercase_identifier n\<close> allows between 1 and \<open>n\<close>
  characters between the first and the last one.
\<close>

definition is_lower :: "char \<Rightarrow> bool" where
  "is_lower c = (CHR ''a'' \<le> c \<and> c \<le> CHR ''z'')"

definition is_upper :: "char \<Rightarrow> bool" where
  "is_upper c = (CHR ''A'' \<le> c \<and> c \<le> CHR ''Z'')"

definition is_digit :: "char \<Rightarrow> bool" where
  "is_digit c = (CHR ''0'' \<le> c \<and> c \<le> CHR ''9'')"

definition lowercase_identifier :: "nat \<Rightarrow> string \<Rightarrow> bool" where
  "lowercase_identifier n s =
     (3 \<le> length s \<and> length s \<le> n + 2
      \<and> is_lower (hd s)
      \<and> list_all (\<lambda>c. is_lower c \<or> is_digit c \<or> c = CHR ''_'') (butlast (tl s))
      \<and> (is_lower (last s) \<or> is_digit (last s)))"

text \<open>A namespace: a lowercase identifier, or a shorter one, a slash and a lowercase identifier.\<close>

definition prefixed_identifier :: "string \<Rightarrow> bool" where
  "prefixed_identifier s =
     (if CHR ''/'' \<in> set s
      then lowercase_identifier 61 (takeWhile (\<lambda>c. c \<noteq> CHR ''/'') s)
           \<and> lowercase_identifier 62 (tl (dropWhile (\<lambda>c. c \<noteq> CHR ''/'') s))
      else lowercase_identifier 62 s)"

text \<open>The two strings that the patterns admit beside identifiers.\<close>

definition Ellipsis :: string where
  "Ellipsis = ''...''"

definition PublicWildcard :: string where
  "PublicWildcard = ''*''"

text \<open>The characters of an object id: letters, digits and \<^verbatim>\<open>/ _ | - = +\<close>.\<close>

definition is_object_id_char :: "char \<Rightarrow> bool" where
  "is_object_id_char c =
     (is_lower c \<or> is_upper c \<or> is_digit c \<or> c \<in> set ''/_|-=+'')"

definition object_id_string :: "string \<Rightarrow> bool" where
  "object_id_string s = (s \<noteq> [] \<and> list_all is_object_id_char s)"

text \<open>A caveat name: a letter, digit or underscore, then at most 127 letters, digits and
  \<^verbatim>\<open>/ _ | -\<close>; or the star.\<close>

definition caveat_name :: "string \<Rightarrow> bool" where
  "caveat_name s =
     (s = PublicWildcard \<or>
      (s \<noteq> [] \<and> length s \<le> 128
       \<and> (is_lower (hd s) \<or> is_upper (hd s) \<or> is_digit (hd s) \<or> hd s = CHR ''_'')
       \<and> list_all (\<lambda>c. is_lower c \<or> is_upper c \<or> is_digit c \<or> c \<in> set ''/_|-'') (tl s)))"

text \<open>
  The set operation of a rewrite, if it has one, whatever the variant; and a rewrite of
  the exclusion variant with the given children.
\<close>

fun set_operation :: "UsersetRewrite \<Rightarrow> SetOperation option" where
  "set_operation (UsersetRewrite None pos) = None"
| "set_operation (UsersetRewrite (Some (UsersetRewrite_Union so)) pos) = so"
| "set_operation (UsersetRewrite (Some (UsersetRewrite_Intersection so)) pos) = so"
| "set_operation (UsersetRewrite (Some (UsersetRewrite_Exclusion so)) pos) = so"

fun is_exclusion :: "UsersetRewrite \<Rightarrow> bool" where
  "is_exclusion (UsersetRewrite (Some (UsersetRewrite_Exclusion so)) pos) = True"
| "is_exclusion rewrite = False"

definition exclusion_of :: "Child list \<Rightarrow> UsersetRewrite" where
  "exclusion_of children =
     UsersetRewrite (Some (UsersetRewrite_Exclusion (Some (SetOperation (map Some children))))) None"

definition computed_child :: "string \<Rightarrow> Child" where
  "computed_child rel =
     Child (Some (Child_ComputedUserset
        (Some \<lparr>object = 0, relation = rel, source_position = None\<rparr>))) None []"

subsection \<open>Sample messages\<close>

text \<open>Three object-and-relation values and two caveat definitions, used below.\<close>

definition document_viewer :: ObjectAndRelation where
  "document_viewer = \<lparr>namespace = ''tenant/document'', object_id = ''doc-1'', relation = ''viewer''\<rparr>"

definition document_ellipsis :: ObjectAndRelation where
  "document_ellipsis = \<lparr>namespace = ''tenant/document'', object_id = ''*'', relation = ''...''\<rparr>"

definition document_Viewer :: ObjectAndRelation where
  "document_Viewer = \<lparr>namespace = ''document'', object_id = ''doc-1'', relation = ''Viewer''\<rparr>"

definition ip_in_range :: CaveatDefinition where
  "ip_in_range = \<lparr>name = ''ip_in_range'', serialized_expression = ''expr'',
     parameter_types = fmupd ''ip'' (CaveatTypeReference ''ipaddress'' []) fmempty,
     metadata = None, source_position = None\<rparr>"

definition no_parameters :: CaveatDefinition where
  "no_parameters = \<lparr>name = ''ip_in_range'', serialized_expression = ''expr'',
     parameter_types = fmempty, metadata = None, source_position = None\<rparr>"

section \<open>Optimized-revision cache (package revisions)\<close>

subsection \<open>The cache, one caller at a time\<close>

text \<open>
  Instants and durations are nanosecond counts. The datastore's optimized-revision
  function is given by its answers: \<open>optimizedFunc k\<close> is what its \<open>k\<close>-th invocation
  returns, an error or a revision with its validity duration. (This is how the mock of
  the test file is programmed.) The number of invocations made so far is carried beside
  the cache.
\<close>

type_synonym 'rev revision_function = "nat \<Rightarrow> string + 'rev \<times> int"

record 'rev CachedOptimizedRevisions =
  maxRevisionStaleness :: int
  cached :: "('rev \<times> int) option"

definition NewCachedOptimizedRevisions :: "int \<Rightarrow> 'rev CachedOptimizedRevisions" where
  "NewCachedOptimizedRevisions maxStaleness =
     \<lparr>maxRevisionStaleness = maxStaleness, cached = None\<rparr>"

text \<open>The cached revision, if it is still valid at instant \<open>t\<close> (step 1 of the spec).\<close>

definition valid_at :: "('rev \<times> int) option \<Rightarrow> int \<Rightarrow> 'rev option" where
  "valid_at c t =
     (case c of None \<Rightarrow> None
      | Some (revision, valid_until) \<Rightarrow> if t < valid_until then Some revision else None)"

text \<open>
  Modelled from the spec: the type \<^verbatim>\<open>CachedOptimizedRevisions\<close> and its method
  \<^verbatim>\<open>OptimizedRevision\<close> are not among the sources (only their test is). Section 4.3 of
  the spec: the cache holds \<open>(revision, valid_until)\<close>; on a request, (1) if
  \<open>now < valid_until\<close> return the cached revision; (2, 3) otherwise refresh: call the
  datastore's optimized-revision function, which returns \<open>(revision, validity_duration)\<close>,
  and store \<open>valid_until = now + validity_duration + max_staleness\<close>; (4) on a refresh
  error return the error and do not cache. The state is the cache with the number of
  invocations of the datastore function.
\<close>

definition CachedOptimizedRevisions_OptimizedRevision ::
  "'rev revision_function \<Rightarrow> int \<Rightarrow> 'rev CachedOptimizedRevisions \<times> nat
     \<Rightarrow> (string + 'rev) \<times> ('rev CachedOptimizedRevisions \<times> nat)" where
  "CachedOptimizedRevisions_OptimizedRevision optimizedFunc localNow st =
     (case st of (cor, invocations) \<Rightarrow>
        (case valid_at (cached cor) localNow of
           Some revision \<Rightarrow> (Inr revision, (cor, invocations))
         | None \<Rightarrow>
             (case optimizedFunc invocations of
                Inl err \<Rightarrow> (Inl err, (cor, Suc invocations))
              | Inr (optimized, validFor) \<Rightarrow>
                  (Inr optimized,
                   (cor\<lparr>cached := Some (optimized, localNow + validFor + maxRevisionStaleness cor)\<rparr>,
                    Suc invocations)))))"

text \<open>A sequence of requests at the given instants: the results, and the final state.\<close>

fun requests ::
  "'rev revision_function \<Rightarrow> int list \<Rightarrow> 'rev CachedOptimizedRevisions \<times> nat
     \<Rightarrow> (string + 'rev) list \<times> ('rev CachedOptimizedRevisions \<times> nat)" where
  "requests optimizedFunc [] st = ([], st)"
| "requests optimizedFunc (t # ts) st =
     (case CachedOptimizedRevisions_OptimizedRevision optimizedFunc t st of
        (result, st') \<Rightarrow>
          (case requests optimizedFunc ts st' of
             (results, st'') \<Rightarrow> (result # results, st'')))"

subsection \<open>The test of the cache (TestOptimizedRevisionCache)\<close>

definition time_Millisecond :: int where
  "time_Millisecond = 1000000"

text \<open>
  The mock: its programmed responses are returned in order, once each; a call beyond
  them is unexpected (the mock panics and the test fails).
\<close>

definition trackingRevisionFunction :: "('rev \<times> int) list \<Rightarrow> 'rev revision_function" where
  "trackingRevisionFunction responses k =
     (if k < length responses then Inr (responses ! k) else Inl ''unexpected call'')"

text \<open>
  The loop of the test: request a revision, require it to be the expected one, advance
  the mock clock by 5 milliseconds. The mock clock starts at instant 0.
\<close>

fun expect_revisions ::
  "'rev revision_function \<Rightarrow> int \<Rightarrow> 'rev list \<Rightarrow> 'rev CachedOptimizedRevisions \<times> nat
     \<Rightarrow> bool \<times> ('rev CachedOptimizedRevisions \<times> nat)" where
  "expect_revisions optimizedFunc mockTime [] st = (True, st)"
| "expect_revisions optimizedFunc mockTime (expectedRev # rest) st =
     (case CachedOptimizedRevisions_OptimizedRevision optimizedFunc mockTime st of
        (Inl err, st') \<Rightarrow> (False, st')
      | (Inr revision, st') \<Rightarrow>
          if revision = expectedRev
          then expect_revisions optimizedFunc (mockTime + 5 * time_Millisecond) rest st'
          else (False, st'))"

text \<open>A test case passes when every revision is the expected one and, at the end, every
  programmed response has been consumed (\<^verbatim>\<open>mock.AssertExpectations\<close>).\<close>

definition test_case_passes :: "int \<Rightarrow> ('rev \<times> int) list \<Rightarrow> 'rev list \<Rightarrow> bool" where
  "test_case_passes maxStaleness expectedCallResponses expectedRevisions =
     (case expect_revisions (trackingRevisionFunction expectedCallResponses) 0 expectedRevisions
             (NewCachedOptimizedRevisions maxStaleness, 0) of
        (ok, (cor, invocations)) \<Rightarrow> ok \<and> invocations = length expectedCallResponses)"

text \<open>The six test cases, with the revisions \<open>one\<close>, \<open>two\<close>, \<open>three\<close> as numbers.\<close>

definition testCases :: "(string \<times> int \<times> (nat \<times> int) list \<times> nat list) list" where
  "testCases =
     [(''single request'', 0, [(1, 0)], [1]),
      (''simple no caching request'', 0, [(1, 0), (2, 0), (3, 0)], [1, 2, 3]),
      (''simple cached once'', 0, [(1, 7 * time_Millisecond), (2, 0)], [1, 1, 2]),
      (''cached by staleness'', 7 * time_Millisecond, [(1, 0), (2, 0)], [1, 1, 2, 2]),
      (''cached by staleness and validity'', 2 * time_Millisecond,
         [(1, 4 * time_Millisecond), (2, 0), (3, 0)], [1, 1, 2, 3]),
      (''cached for a while'', 0, [(1, 28 * time_Millisecond), (2, 0)], [1, 1, 1, 1, 1, 1, 2])]"

definition TestOptimizedRevisionCache :: bool where
  "TestOptimizedRevisionCache =
     list_all (\<lambda>(name, maxStaleness, responses, expected).
        test_case_passes maxStaleness responses expected) testCases"

subsection \<open>Concurrent callers: single flight\<close>

text \<open>
  Modelled from the spec: the single-flight coordination of the cache is not among the
  sources. Section 4.3 of the spec, step 2: if the cached revision is not valid and no
  refresh is in flight, start one; if one is in flight, join it; the refresh calls the
  datastore function and stores \<open>valid_until\<close>; on a refresh error all joined waiters
  fail with the same error and nothing is cached. Concurrency is the interleaving of two
  kinds of atomic events: a caller arrives (reads the clock, looks at the cache under the
  mutex, and starts or joins the refresh), and the refresh in flight completes (stores
  its result and releases its waiters). A refresh in flight is its starter's clock
  reading, the number of its invocation of the datastore function, and its waiters.
\<close>

datatype event = Arrive nat int | Complete

record 'rev flight_state =
  cache :: "('rev \<times> int) option"
  invocations :: nat
  in_flight :: "(int \<times> nat \<times> nat list) option"
  delivered :: "(nat \<times> (string + 'rev)) list"

fun step :: "int \<Rightarrow> 'rev revision_function \<Rightarrow> event \<Rightarrow> 'rev flight_state \<Rightarrow> 'rev flight_state" where
  "step staleness optimizedFunc (Arrive caller localNow) st =
     (case valid_at (cache st) localNow of
        Some revision \<Rightarrow> st\<lparr>delivered := delivered st @ [(caller, Inr revision)]\<rparr>
      | None \<Rightarrow>
          (case in_flight st of
             None \<Rightarrow> st\<lparr>in_flight := Some (localNow, invocations st, [caller]),
                        invocations := Suc (invocations st)\<rparr>
           | Some (started, k, waiters) \<Rightarrow>
               st\<lparr>in_flight := Some (started, k, waiters @ [caller])\<rparr>))"
| "step staleness optimizedFunc Complete st =
     (case in_flight st of
        None \<Rightarrow> st
      | Some (started, k, waiters) \<Rightarrow>
          (case optimizedFunc k of
             Inl err \<Rightarrow>
               st\<lparr>in_flight := None,
                  delivered := delivered st @ map (\<lambda>caller. (caller, Inl err)) waiters\<rparr>
           | Inr (optimized, validFor) \<Rightarrow>
               st\<lparr>cache := Some (optimized, started + validFor + staleness),
                  in_flight := None,
                  delivered := delivered st @ map (\<lambda>caller. (caller, Inr optimized)) waiters\<rparr>))"

fun run :: "int \<Rightarrow> 'rev revision_function \<Rightarrow> event list \<Rightarrow> 'rev flight_state \<Rightarrow> 'rev flight_state" where
  "run staleness optimizedFunc [] st = st"
| "run staleness optimizedFunc (e # es) st =
     run staleness optimizedFunc es (step staleness optimizedFunc e st)"

text \<open>The arrivals of the given callers, each with its clock reading.\<close>

definition arrivals :: "(nat \<times> int) list \<Rightarrow> event list" where
  "arrivals callers = map (\<lambda>(caller, localNow). Arrive caller localNow) callers"

text \<open>What a caller receives from a response of the datastore function.\<close>

definition outcome :: "string + 'rev \<times> int \<Rightarrow> string + 'rev" where
  "outcome response = (case response of Inl err \<Rightarrow> Inl err | Inr (optimized, validFor) \<Rightarrow> Inr optimized)"

text \<open>
  The single-flight test (TestOptimizedRevisionCacheSingleFlight): ten callers, one
  millisecond apart, while the one programmed response takes 50 milliseconds; and the
  error test (TestSingleFlightError): one caller, the programmed response is an error.
\<close>

definition singleFlightCallers :: "(nat \<times> int) list" where
  "singleFlightCallers = map (\<lambda>i. (i, int i * time_Millisecond)) [0..<10]"

definition failingRevisionFunction :: "nat revision_function" where
  "failingRevisionFunction k = (if k < 1 then Inl ''fail'' else Inl ''unexpected call'')"

definition initial_flight_state :: "'rev flight_state" where
  "initial_flight_state = \<lparr>cache = None, invocations = 0, in_flight = None, delivered = []\<rparr>"

text \<open>
  Sample values: a cache with 2 milliseconds of staleness, the responses of the test case
  ``cached by staleness and validity'', the cache after the first of them was fetched at
  instant 0, and a flight state in which caller 0 has started a refresh at instant 0.
\<close>

definition sample_cache :: "nat CachedOptimizedRevisions" where
  "sample_cache = NewCachedOptimizedRevisions (2 * time_Millisecond)"

definition sample_responses :: "(nat \<times> int) list" where
  "sample_responses = [(1, 4 * time_Millisecond), (2, 0), (3, 0)]"

definition sample_cache_one :: "nat CachedOptimizedRevisions" where
  "sample_cache_one = sample_cache\<lparr>cached := Some (1, 6 * time_Millisecond)\<rparr>"

definition started_flight_state :: "nat flight_state" where
  "started_flight_state = initial_flight_state\<lparr>in_flight := Some (0, 0, [0]), invocations := 1\<rparr>"

section \<open>Reachability graph\<close>

subsection \<open>Entrypoints (proto/internal/core/v1/core.proto)\<close>

datatype ReachabilityEntrypointKind =
    RELATION_ENTRYPOINT
  | COMPUTED_USERSET_ENTRYPOINT
  | TUPLESET_TO_USERSET_ENTRYPOINT

datatype EntrypointResultStatus =
    REACHABLE_CONDITIONAL_RESULT
  | DIRECT_OPERATION_RESULT

record RelationReference =
  ref_namespace :: string
  ref_relation :: string

record ReachabilityEntrypoint =
  kind :: ReachabilityEntrypointKind
  target_relation :: RelationReference
  result_status :: EntrypointResultStatus
  tupleset_relation :: string

subsection \<open>The schema, as the spec's data model has it\<close>

text \<open>
  A rewrite is a union, an intersection or an exclusion over an ordered list of children;
  a child is \<open>_this\<close>, a computed userset (a relation of the same object), a tuple to
  userset (a tupleset relation, then a relation on each result), a nested rewrite, or
  \<open>_nil\<close>. An allowed subject type is a namespace with a relation, or with the wildcard
  (\<open>None\<close>). A relation without a rewrite is a data relation.
\<close>

datatype operation_kind = UNION | INTERSECTION | EXCLUSION

datatype rewrite = Rewrite operation_kind "rewrite_child list"
and rewrite_child =
    This_child
  | Computed_child string
  | TupleToUserset_child string string
  | Rewrite_child rewrite
  | Nil_child

record allowed_relation =
  allowed_namespace :: string
  allowed_relation_or_wildcard :: "string option"

record relation_definition =
  relation_name :: string
  allowed_direct_relations :: "allowed_relation list"
  relation_rewrite :: "rewrite option"

record namespace_definition =
  namespace_name :: string
  relations :: "relation_definition list"

subsection \<open>Construction of the graph\<close>

text \<open>
  Entrypoints are recorded under the subject type (for wildcards) or under the subject
  type and relation. While the graph is built each entrypoint is kept with the position
  of the child it comes from: the indices of the children from the root of the rewrite
  down to it (the empty position for a data relation).
\<close>

datatype subject_key = BySubjectType string | BySubjectRelation string string

record located_entrypoint =
  position :: "nat list"
  subject :: subject_key
  entrypoint :: ReachabilityEntrypoint

definition allowed_key :: "allowed_relation \<Rightarrow> subject_key" where
  "allowed_key a =
     (case allowed_relation_or_wildcard a of
        None \<Rightarrow> BySubjectType (allowed_namespace a)
      | Some r \<Rightarrow> BySubjectRelation (allowed_namespace a) r)"

fun find_relation :: "relation_definition list \<Rightarrow> string \<Rightarrow> relation_definition option" where
  "find_relation [] r = None"
| "find_relation (d # ds) r = (if relation_name d = r then Some d else find_relation ds r)"

definition tupleset_types :: "namespace_definition \<Rightarrow> string \<Rightarrow> allowed_relation list" where
  "tupleset_types ns ts =
     (case find_relation (relations ns) ts of None \<Rightarrow> [] | Some d \<Rightarrow> allowed_direct_relations d)"

text \<open>The status handed to the children of an operation.\<close>

fun child_status :: "operation_kind \<Rightarrow> EntrypointResultStatus \<Rightarrow> EntrypointResultStatus" where
  "child_status UNION status = status"
| "child_status INTERSECTION status = REACHABLE_CONDITIONAL_RESULT"
| "child_status EXCLUSION status = REACHABLE_CONDITIONAL_RESULT"

text \<open>
  Modelled from the spec: the builder of the reachability graph is not among the sources
  (the proto file declares the entrypoint and its two enums). Section 4.2 of the spec:
  the construction walks the rewrite tree of a permission once, recording entrypoints
  keyed by namespace (for wildcards) and by namespace and relation; \<open>_nil\<close> contributes
  none; an entrypoint is of kind relation, computed userset or tupleset to userset, with
  the tupleset relation where applicable. The walk goes down from the root with the
  status \<^verbatim>\<open>DIRECT_OPERATION_RESULT\<close>; a union hands its own status to its children, an
  intersection or an exclusion hands them \<^verbatim>\<open>REACHABLE_CONDITIONAL_RESULT\<close>.
\<close>

fun rewrite_entrypoints ::
    "namespace_definition \<Rightarrow> relation_definition \<Rightarrow> EntrypointResultStatus \<Rightarrow> nat list
       \<Rightarrow> rewrite \<Rightarrow> located_entrypoint list"
  and children_entrypoints ::
    "namespace_definition \<Rightarrow> relation_definition \<Rightarrow> EntrypointResultStatus \<Rightarrow> nat list
       \<Rightarrow> nat \<Rightarrow> rewrite_child list \<Rightarrow> located_entrypoint list"
  and child_entrypoints ::
    "namespace_definition \<Rightarrow> relation_definition \<Rightarrow> EntrypointResultStatus \<Rightarrow> nat list
       \<Rightarrow> rewrite_child \<Rightarrow> located_entrypoint list" where
  "rewrite_entrypoints ns rel status pos (Rewrite operation children) =
     children_entrypoints ns rel (child_status operation status) pos 0 children"
| "children_entrypoints ns rel status pos idx [] = []"
| "children_entrypoints ns rel status pos idx (c # children) =
     child_entrypoints ns rel status (pos @ [idx]) c
       @ children_entrypoints ns rel status pos (Suc idx) children"
| "child_entrypoints ns rel status pos This_child =
     map (\<lambda>a. \<lparr>position = pos, subject = allowed_key a,
            entrypoint = \<lparr>kind = RELATION_ENTRYPOINT,
              target_relation = \<lparr>ref_namespace = namespace_name ns,
                                 ref_relation = relation_name rel\<rparr>,
              result_status = status, tupleset_relation = []\<rparr>\<rparr>)
       (allowed_direct_relations rel)"
| "child_entrypoints ns rel status pos (Computed_child r) =
     [\<lparr>position = pos, subject = BySubjectRelation (namespace_name ns) r,
       entrypoint = \<lparr>kind = COMPUTED_USERSET_ENTRYPOINT,
         target_relation = \<lparr>ref_namespace = namespace_name ns,
                            ref_relation = relation_name rel\<rparr>,
         result_status = status, tupleset_relation = []\<rparr>\<rparr>]"
| "child_entrypoints ns rel status pos (TupleToUserset_child ts r) =
     map (\<lambda>a. \<lparr>position = pos, subject = BySubjectRelation (allowed_namespace a) r,
            entrypoint = \<lparr>kind = TUPLESET_TO_USERSET_ENTRYPOINT,
              target_relation = \<lparr>ref_namespace = namespace_name ns,
                                 ref_relation = relation_name rel\<rparr>,
              result_status = status, tupleset_relation = ts\<rparr>\<rparr>)
       (tupleset_types ns ts)"
| "child_entrypoints ns rel status pos (Rewrite_child rw) =
     rewrite_entrypoints ns rel status pos rw"
| "child_entrypoints ns rel status pos Nil_child = []"

text \<open>The entrypoints of a relation: those of its rewrite, or, for a data relation, one
  relation entrypoint for each allowed subject type.\<close>

definition relation_entrypoints ::
  "namespace_definition \<Rightarrow> relation_definition \<Rightarrow> located_entrypoint list" where
  "relation_entrypoints ns rel =
     (case relation_rewrite rel of
        None \<Rightarrow> child_entrypoints ns rel DIRECT_OPERATION_RESULT [] This_child
      | Some rw \<Rightarrow> rewrite_entrypoints ns rel DIRECT_OPERATION_RESULT [] rw)"

text \<open>The graph: the entrypoints recorded under a subject type and under a subject relation.\<close>

definition entrypoints_by_subject_type ::
  "namespace_definition \<Rightarrow> relation_definition \<Rightarrow> string \<Rightarrow> ReachabilityEntrypoint list" where
  "entrypoints_by_subject_type ns rel subject_ns =
     map entrypoint (filter (\<lambda>le. subject le = BySubjectType subject_ns)
       (relation_entrypoints ns rel))"

definition entrypoints_by_subject_relation ::
  "namespace_definition \<Rightarrow> relation_definition \<Rightarrow> string \<Rightarrow> string
     \<Rightarrow> ReachabilityEntrypoint list" where
  "entrypoints_by_subject_relation ns rel subject_ns subject_rel =
     map entrypoint (filter (\<lambda>le. subject le = BySubjectRelation subject_ns subject_rel)
       (relation_entrypoints ns rel))"

subsection \<open>Walking the rewrite tree upward\<close>

text \<open>
  The operations above a position, from the root down: the operation of the rewrite the
  position starts in, then those of the nested rewrites it passes through.
\<close>

fun ancestor_operations :: "rewrite \<Rightarrow> nat list \<Rightarrow> operation_kind list"
  and ancestors_in_children :: "rewrite_child list \<Rightarrow> nat \<Rightarrow> nat list \<Rightarrow> operation_kind list"
  and ancestors_in_child :: "rewrite_child \<Rightarrow> nat list \<Rightarrow> operation_kind list" where
  "ancestor_operations (Rewrite operation children) [] = []"
| "ancestor_operations (Rewrite operation children) (idx # pos) =
     operation # ancestors_in_children children idx pos"
| "ancestors_in_children [] idx pos = []"
| "ancestors_in_children (c # children) 0 pos = ancestors_in_child c pos"
| "ancestors_in_children (c # children) (Suc idx) pos = ancestors_in_children children idx pos"
| "ancestors_in_child (Rewrite_child rw) pos = ancestor_operations rw pos"
| "ancestors_in_child c pos = []"

definition relation_ancestors :: "relation_definition \<Rightarrow> nat list \<Rightarrow> operation_kind list" where
  "relation_ancestors rel pos =
     (case relation_rewrite rel of None \<Rightarrow> [] | Some rw \<Rightarrow> ancestor_operations rw pos)"

text \<open>
  The schema of the documentation of \<^verbatim>\<open>ReachabilityGraph\<close> in the proto file, and a
  permission with an intersection and an exclusion.
\<close>

definition user_type :: allowed_relation where
  "user_type = \<lparr>allowed_namespace = ''user'', allowed_relation_or_wildcard = Some ''...''\<rparr>"

definition view_rewrite :: rewrite where
  "view_rewrite = Rewrite UNION
     [Computed_child ''viewer'', Computed_child ''owner'', TupleToUserset_child ''org'' ''admin'']"

definition view_relation :: relation_definition where
  "view_relation = \<lparr>relation_name = ''view'', allowed_direct_relations = [],
     relation_rewrite = Some view_rewrite\<rparr>"

definition edit_rewrite :: rewrite where
  "edit_rewrite = Rewrite UNION
     [Computed_child ''owner'',
      Rewrite_child (Rewrite EXCLUSION [Computed_child ''viewer'', Computed_child ''banned'']),
      Rewrite_child (Rewrite UNION [Computed_child ''editor''])]"

definition edit_relation :: relation_definition where
  "edit_relation = \<lparr>relation_name = ''edit'', allowed_direct_relations = [],
     relation_rewrite = Some edit_rewrite\<rparr>"

definition resource_namespace :: namespace_definition where
  "resource_namespace = \<lparr>namespace_name = ''resource'', relations =
     [\<lparr>relation_name = ''org'', allowed_direct_relations =
         [\<lparr>allowed_namespace = ''organization'', allowed_relation_or_wildcard = Some ''...''\<rparr>],
        relation_rewrite = None\<rparr>,
      \<lparr>relation_name = ''viewer'', allowed_direct_relations = [user_type],
        relation_rewrite = None\<rparr>,
      \<lparr>relation_name = ''owner'', allowed_direct_relations = [user_type],
        relation_rewrite = None\<rparr>,
      view_relation, edit_relation]\<rparr>"

text \<open>The status of an entrypoint below the given operations, listed from the root down,
  when the walk starts with \<open>status\<close>.\<close>

definition status_under :: "EntrypointResultStatus \<Rightarrow> operation_kind list \<Rightarrow> EntrypointResultStatus" where
  "status_under status ops =
     (if \<forall>operation \<in> set ops. operation = UNION then status else REACHABLE_CONDITIONAL_RESULT)"

text \<open>Two entrypoints of the permission \<open>edit\<close>: \<open>viewer\<close> below the exclusion and
  \<open>editor\<close> below the nested union.\<close>

definition viewer_under_exclusion :: located_entrypoint where
  "viewer_under_exclusion = \<lparr>position = [1, 0], subject = BySubjectRelation ''resource'' ''viewer'',
     entrypoint = \<lparr>kind = COMPUTED_USERSET_ENTRYPOINT,
       target_relation = \<lparr>ref_namespace = ''resource'', ref_relation = ''edit''\<rparr>,
       result_status = REACHABLE_CONDITIONAL_RESULT, tupleset_relation = []\<rparr>\<rparr>"

definition editor_under_union :: located_entrypoint where
  "editor_under_union = \<lparr>position = [2, 0], subject = BySubjectRelation ''resource'' ''editor'',
     entrypoint = \<lparr>kind = COMPUTED_USERSET_ENTRYPOINT,
       target_relation = \<lparr>ref_namespace = ''resource'', ref_relation = ''edit''\<rparr>,
       result_status = DIRECT_OPERATION_RESULT, tupleset_relation = []\<rparr>\<rparr>"

section \<open>The read-only service\<close>

text \<open>The error kinds of section 7 of the spec.\<close>

datatype error_kind =
    INVALID_ARGUMENT | FAILED_PRECONDITION | DEADLINE_EXCEEDED | CANCELLED
  | EXHAUSTED_DEPTH | UNAVAILABLE | INTERNAL

record service_error =
  error_code :: error_kind
  error_message :: string
  error_reason :: string

text \<open>
  The error the test of the serving image expects from a write on the read-only port:
  \<^verbatim>\<open>code = Unavailable desc = service read-only\<close>, with \<^verbatim>\<open>SERVICE_READ_ONLY\<close> in the body
  of the HTTP response.
\<close>

definition service_read_only :: service_error where
  "service_read_only = \<lparr>error_code = UNAVAILABLE, error_message = ''service read-only'',
     error_reason = ''SERVICE_READ_ONLY''\<rparr>"

text \<open>
  The stored state: the schema and the relationships. The requests of the test: writes
  of relationships and of a schema, permission checks and schema reads.
\<close>

record 'rel stored =
  schema_text :: string
  stored_relationships :: "'rel list"

datatype ('upd, 'chk) request =
    WriteRelationships "'upd list"
  | WriteSchema string
  | CheckPermission 'chk
  | ReadSchema

datatype 'perm response = Written | Permissionship 'perm | SchemaText string

fun is_write :: "('upd, 'chk) request \<Rightarrow> bool" where
  "is_write (WriteRelationships updates) = True"
| "is_write (WriteSchema schema) = True"
| "is_write (CheckPermission chk) = False"
| "is_write ReadSchema = False"

text \<open>
  What the service does with a relationship write, a schema write and a check when it is
  not read-only is not the subject here: these are parameters. A write returns an error
  or the new stored state; a check reads the stored state.
\<close>

record ('upd, 'chk, 'rel, 'perm) handlers =
  write_relationships :: "'upd list \<Rightarrow> 'rel stored \<Rightarrow> service_error + 'rel stored"
  write_schema :: "string \<Rightarrow> 'rel stored \<Rightarrow> service_error + 'rel stored"
  check_permission :: "'chk \<Rightarrow> 'rel stored \<Rightarrow> service_error + 'perm"

definition written :: "service_error + 'rel stored \<Rightarrow> 'rel stored
    \<Rightarrow> (service_error + 'perm response) \<times> 'rel stored" where
  "written result st = (case result of Inl err \<Rightarrow> (Inl err, st) | Inr st' \<Rightarrow> (Inr Written, st'))"

text \<open>
  Modelled from the spec: the server and its read-only mode are not among the sources
  (only the test of the serving image is). Section 7 of the spec: \<^verbatim>\<open>UNAVAILABLE\<close> is the
  error of a service running read-only when a write arrives. The service answers a
  request on the stored state and returns the response with the stored state afterwards;
  \<open>readonly\<close> tells whether it runs read-only.
\<close>

definition serve ::
  "bool \<Rightarrow> ('upd, 'chk, 'rel, 'perm) handlers \<Rightarrow> ('upd, 'chk) request \<Rightarrow> 'rel stored
     \<Rightarrow> (service_error + 'perm response) \<times> 'rel stored" where
  "serve readonly h req st =
     (case req of
        WriteRelationships updates \<Rightarrow>
          if readonly then (Inl service_read_only, st)
          else written (write_relationships h updates st) st
      | WriteSchema schema \<Rightarrow>
          if readonly then (Inl service_read_only, st)
          else written (write_schema h schema st) st
      | CheckPermission chk \<Rightarrow>
          (case check_permission h chk st of
             Inl err \<Rightarrow> (Inl err, st)
           | Inr perm \<Rightarrow> (Inr (Permissionship perm), st))
      | ReadSchema \<Rightarrow> (Inr (SchemaText (schema_text st)), st))"

text \<open>
  The test server listens on a read-write and on a read-only port over the same stored
  state: a sequence of requests, each marked with the port it is sent to (\<open>True\<close> for
  the read-only one), gives the responses and the stored state at the end.
\<close>

fun serve_all ::
  "('upd, 'chk, 'rel, 'perm) handlers \<Rightarrow> (bool \<times> ('upd, 'chk) request) list \<Rightarrow> 'rel stored
     \<Rightarrow> (service_error + 'perm response) list \<times> 'rel stored" where
  "serve_all h [] st = ([], st)"
| "serve_all h ((readonly, req) # reqs) st =
     (case serve readonly h req st of
        (resp, st') \<Rightarrow> (case serve_all h reqs st' of (resps, st'') \<Rightarrow> (resp # resps, st'')))"

text \<open>
  Handlers for the scenario of the test (schema \<open>view = reader + writer\<close>): a write
  adds the relationships, a check looks for the subject as reader or writer of the
  resource. A relationship is \<open>(resource, relation, subject)\<close>.
\<close>

datatype permissionship = NO_PERMISSION | HAS_PERMISSION

definition test_handlers ::
  "(string \<times> string \<times> string, string \<times> string, string \<times> string \<times> string, permissionship)
     handlers" where
  "test_handlers = \<lparr>
     write_relationships = (\<lambda>updates st.
        Inr (st\<lparr>stored_relationships := stored_relationships st @ updates\<rparr>)),
     write_schema = (\<lambda>schema st. Inr (st\<lparr>schema_text := schema\<rparr>)),
     check_permission = (\<lambda>(resource, subject) st.
        Inr (if (resource, ''reader'', subject) \<in> set (stored_relationships st)
               \<or> (resource, ''writer'', subject) \<in> set (stored_relationships st)
             then HAS_PERMISSION else NO_PERMISSION))\<rparr>"

definition test_stored :: "(string \<times> string \<times> string) stored" where
  "test_stored = \<lparr>schema_text = ''definition resource'', stored_relationships = []\<rparr>"

definition test_relationship :: "string \<times> string \<times> string" where
  "test_relationship = (''resource:someresource'', ''reader'', ''user:somegal'')"

definition test_requests ::
  "(bool \<times> (string \<times> string \<times> string, string \<times> string) request) list" where
  "test_requests =
     [(True, WriteRelationships [test_relationship]),
      (False, WriteRelationships [test_relationship]),
      (False, CheckPermission (''resource:someresource'', ''user:somegal'')),
      (True, CheckPermission (''resource:someresource'', ''user:somegal'')),
      (False, ReadSchema),
      (True, WriteSchema ''definition user {}'')]"

section \<open>Verified properties\<close>

subsection \<open>generateConfig\<close>

lemma applyOptions_append:
  "applyOptions (xs @ ys) po = applyOptions ys (applyOptions xs po)"
  by (induction xs arbitrary: po) simp_all

lemma applyOptions_leaves:
  "\<forall>option \<in> set options. leaves field option \<Longrightarrow> field (applyOptions options po) = field po"
  by (induction options arbitrary: po) (simp_all add: leaves_def)

lemma applyOptions_last_wins:
  assumes "sets field v option" and "\<forall>later \<in> set ys. leaves field later"
  shows "field (applyOptions (xs @ [option] @ ys) po) = v"
  using assms by (simp add: applyOptions_append applyOptions_leaves sets_def)

lemma fst_generateConfig: "fst (generateConfig options) = applyOptions options initialOptions"
  by (simp add: generateConfig_def Let_def)

lemma snd_generateConfig:
  "(snd (generateConfig options) \<noteq> None) =
     word_sle (gcWindow (applyOptions options initialOptions))
       (revisionQuantization (applyOptions options initialOptions))"
  by (simp add: generateConfig_def Let_def)

text \<open>
  C9. \<open>generateConfig\<close> returns an error exactly when the computed revision quantization
  is greater than or equal to the computed GC window (signed 64-bit comparison). A field
  that every option of the list leaves alone keeps its default: GC window 24 hours,
  revision quantization 5 seconds, watch buffer length 128, maximum revision staleness
  percent 0.1, split-at-userset count 1024, maximum retries 5, overlap strategy
  \<open>static\<close>. The options are applied in list order: the value set by an option survives
  exactly the later options that leave the field alone, so the last option setting a field
  wins.
\<close>

theorem generateConfig_spec:
  "((snd (generateConfig options) \<noteq> None) =
      word_sle (gcWindow (fst (generateConfig options)))
        (revisionQuantization (fst (generateConfig options))))
   \<and> ((\<forall>option \<in> set options. leaves gcWindow option) \<longrightarrow>
        gcWindow (fst (generateConfig options)) = 24 * time_Hour)
   \<and> ((\<forall>option \<in> set options. leaves revisionQuantization option) \<longrightarrow>
        revisionQuantization (fst (generateConfig options)) = 5 * time_Second)
   \<and> ((\<forall>option \<in> set options. leaves watchBufferLength option) \<longrightarrow>
        watchBufferLength (fst (generateConfig options)) = 128)
   \<and> ((\<forall>option \<in> set options. leaves maxRevisionStalenessPercent option) \<longrightarrow>
        maxRevisionStalenessPercent (fst (generateConfig options)) = 0.1)
   \<and> ((\<forall>option \<in> set options. leaves splitAtUsersetCount option) \<longrightarrow>
        splitAtUsersetCount (fst (generateConfig options)) = 1024)
   \<and> ((\<forall>option \<in> set options. leaves maxRetries option) \<longrightarrow>
        maxRetries (fst (generateConfig options)) = 5)
   \<and> ((\<forall>option \<in> set options. leaves overlapStrategy option) \<longrightarrow>
        overlapStrategy (fst (generateConfig options)) = ''static'')
   \<and> (sets field v option \<and> (\<forall>later \<in> set ys. leaves field later) \<longrightarrow>
        field (fst (generateConfig (xs @ [option] @ ys))) = v)"
proof -
  have init: "gcWindow initialOptions = 24 * time_Hour"
    "revisionQuantization initialOptions = 5 * time_Second"
    "watchBufferLength initialOptions = 128"
    "maxRevisionStalenessPercent initialOptions = 0.1"
    "splitAtUsersetCount initialOptions = 1024"
    "maxRetries initialOptions = 5"
    "overlapStrategy initialOptions = ''static''"
    by (simp_all add: initialOptions_def defaultRevisionQuantization_def
        defaultWatchBufferLength_def defaultMaxRevisionStalenessPercent_def
        defaultSplitSize_def defaultMaxRetries_def defaultOverlapStrategy_def
        overlapStrategyStatic_def)
  have untouched: "\<And>field. \<forall>option \<in> set options. leaves field option \<Longrightarrow>
      field (fst (generateConfig options)) = field initialOptions"
    unfolding fst_generateConfig by (rule applyOptions_leaves)
  have last_wins: "sets field v option \<and> (\<forall>later \<in> set ys. leaves field later) \<longrightarrow>
      field (fst (generateConfig (xs @ [option] @ ys))) = v"
    unfolding fst_generateConfig using applyOptions_last_wins [of field v option ys xs] by blast
  have err: "(snd (generateConfig options) \<noteq> None) =
      word_sle (gcWindow (fst (generateConfig options)))
        (revisionQuantization (fst (generateConfig options)))"
    unfolding fst_generateConfig by (rule snd_generateConfig)
  show ?thesis
    apply (intro conjI impI)
            apply (rule err)
           apply (simp only: untouched init)+
    apply (rule last_wins [rule_format])
    apply simp
    done
qed

text \<open>
  The theorem at two option lists. The first touches none of the seven fields, so each
  keeps its default and no error is returned; in the second the GC window is set twice
  and then left alone, the later value wins, and since it equals the default revision
  quantization of 5 seconds the error is returned.
\<close>

theorem generateConfig_spec_witness:
  "leaves gcWindow (OverlapKey ''k'') \<and> leaves gcWindow (FollowerReadDelay 1)
   \<and> leaves revisionQuantization (OverlapKey ''k'')
   \<and> leaves revisionQuantization (FollowerReadDelay 1)
   \<and> leaves watchBufferLength (OverlapKey ''k'')
   \<and> leaves watchBufferLength (FollowerReadDelay 1)
   \<and> leaves maxRevisionStalenessPercent (OverlapKey ''k'')
   \<and> leaves maxRevisionStalenessPercent (FollowerReadDelay 1)
   \<and> leaves splitAtUsersetCount (OverlapKey ''k'')
   \<and> leaves splitAtUsersetCount (FollowerReadDelay 1)
   \<and> leaves maxRetries (OverlapKey ''k'') \<and> leaves maxRetries (FollowerReadDelay 1)
   \<and> leaves overlapStrategy (OverlapKey ''k'')
   \<and> leaves overlapStrategy (FollowerReadDelay 1)
   \<and> snd (generateConfig [OverlapKey ''k'', FollowerReadDelay 1]) = None
   \<and> gcWindow (fst (generateConfig [OverlapKey ''k'', FollowerReadDelay 1])) = 24 * time_Hour
   \<and> revisionQuantization (fst (generateConfig [OverlapKey ''k'', FollowerReadDelay 1]))
       = 5 * time_Second
   \<and> watchBufferLength (fst (generateConfig [OverlapKey ''k'', FollowerReadDelay 1])) = 128
   \<and> maxRevisionStalenessPercent (fst (generateConfig [OverlapKey ''k'', FollowerReadDelay 1]))
       = 0.1
   \<and> splitAtUsersetCount (fst (generateConfig [OverlapKey ''k'', FollowerReadDelay 1])) = 1024
   \<and> maxRetries (fst (generateConfig [OverlapKey ''k'', FollowerReadDelay 1])) = 5
   \<and> overlapStrategy (fst (generateConfig [OverlapKey ''k'', FollowerReadDelay 1])) = ''static''
   \<and> sets gcWindow (5 * time_Second) (GCWindow (5 * time_Second))
   \<and> leaves gcWindow (WatchBufferLength 7)
   \<and> gcWindow (fst (generateConfig
        ([GCWindow time_Hour] @ [GCWindow (5 * time_Second)] @ [WatchBufferLength 7])))
       = 5 * time_Second
   \<and> snd (generateConfig
        ([GCWindow time_Hour] @ [GCWindow (5 * time_Second)] @ [WatchBufferLength 7]))
       = Some (ErrQuantizationTooLarge (5 * time_Second) (5 * time_Second))"
proof -
  have l: "leaves field (OverlapKey ''k'') \<and> leaves field (FollowerReadDelay 1)"
    if "field \<in> {gcWindow, revisionQuantization}" for field :: "crdbOptions \<Rightarrow> Duration"
    using that by (auto simp add: leaves_def OverlapKey_def FollowerReadDelay_def)
  have l16: "leaves field (OverlapKey ''k'') \<and> leaves field (FollowerReadDelay 1)"
    if "field \<in> {watchBufferLength, splitAtUsersetCount}" for field :: "crdbOptions \<Rightarrow> 16 word"
    using that by (auto simp add: leaves_def OverlapKey_def FollowerReadDelay_def)
  have l': "leaves maxRevisionStalenessPercent (OverlapKey ''k'')"
    "leaves maxRevisionStalenessPercent (FollowerReadDelay 1)"
    "leaves maxRetries (OverlapKey ''k'')" "leaves maxRetries (FollowerReadDelay 1)"
    "leaves overlapStrategy (OverlapKey ''k'')" "leaves overlapStrategy (FollowerReadDelay 1)"
    by (simp_all add: leaves_def OverlapKey_def FollowerReadDelay_def)
  have s: "sets gcWindow (5 * time_Second) (GCWindow (5 * time_Second))"
    by (simp add: sets_def GCWindow_def)
  have w: "leaves gcWindow (WatchBufferLength 7)"
    by (simp add: leaves_def WatchBufferLength_def)
  have n: "snd (generateConfig [OverlapKey ''k'', FollowerReadDelay 1]) = None"
    by (simp add: generateConfig_def OverlapKey_def FollowerReadDelay_def initialOptions_def
        time_Hour_def time_Second_def defaultRevisionQuantization_def word_sle_eq)
  have e: "snd (generateConfig
        ([GCWindow time_Hour] @ [GCWindow (5 * time_Second)] @ [WatchBufferLength 7]))
       = Some (ErrQuantizationTooLarge (5 * time_Second) (5 * time_Second))"
    by (simp add: generateConfig_def GCWindow_def WatchBufferLength_def initialOptions_def
        defaultRevisionQuantization_def)
  show ?thesis
    using l [of gcWindow] l [of revisionQuantization] l16 [of watchBufferLength]
      l16 [of splitAtUsersetCount] l' s w n e
      generateConfig_spec [of "[OverlapKey ''k'', FollowerReadDelay 1]"
        gcWindow "5 * time_Second" "GCWindow (5 * time_Second)" "[WatchBufferLength 7]"
        "[GCWindow time_Hour]"]
    by simp
qed

subsection \<open>The separating-context proxy\<close>

lemma SeparateContextWithTracing_cases:
  "SeparateContextWithTracing ctx =
     (case log_Ctx ctx of
        None \<Rightarrow> WithValue Background SpanKey (SpanValue (SpanFromContext ctx))
      | Some l \<Rightarrow> WithValue (WithValue Background SpanKey (SpanValue (SpanFromContext ctx)))
                    LoggerKey (LoggerValue l))"
  by (simp add: SeparateContextWithTracing_def ContextWithSpan_def Logger_WithContext_def Let_def
      split: option.splits)

lemma severed_SeparateContextWithTracing: "severed ctx (SeparateContextWithTracing ctx)"
  by (cases "log_Ctx ctx")
     (simp_all add: severed_def SeparateContextWithTracing_cases SpanFromContext_def log_Ctx_def)

text \<open>
  C4, as stated, fails: \<^verbatim>\<open>ReadWriteTx\<close> and \<^verbatim>\<open>Watch\<close> hand the incoming context to the
  delegate as it is. For the request context above the delegate of \<^verbatim>\<open>ReadWriteTx\<close> (and
  of \<^verbatim>\<open>Watch\<close>) receives a context that has the deadline 100, is done once the client
  has called its cancel function, is done at the deadline, and still carries the request
  value.
\<close>

theorem ctxProxy_severs_counterexample:
  "datastore_call_ctx (ctxProxy (ReadWriteTx request_ctx () :: (unit, unit) datastore_call))
     = Some request_ctx
   \<and> datastore_call_ctx (ctxProxy (Watch request_ctx () :: (unit, unit) datastore_call))
     = Some request_ctx
   \<and> Deadline request_ctx = Some 100
   \<and> Done \<lparr>cancelled = {0}, now = 5\<rparr> request_ctx
   \<and> Done \<lparr>cancelled = {}, now = 100\<rparr> request_ctx
   \<and> Value request_ctx (OtherKey ''user'') = Some (OtherValue ''alice'')
   \<and> \<not> severed request_ctx request_ctx"
proof -
  have "Deadline request_ctx = Some 100"
    by (simp add: request_ctx_def)
  then have "\<not> severed request_ctx request_ctx"
    by (simp add: severed_def)
  then show ?thesis
    by (simp add: ctxProxy_ReadWriteTx_def ctxProxy_Watch_def) (simp add: request_ctx_def)
qed

text \<open>
  C4, amended. For every incoming context and every method of the datastore proxy that
  takes a context, other than \<^verbatim>\<open>ReadWriteTx\<close> and \<^verbatim>\<open>Watch\<close>, and for every method of the
  reader proxy, the context passed to the delegate carries the span and the logger (if
  any) of the incoming context and nothing else: no other value, no deadline, and it is
  never done, whatever is cancelled and whatever the time. \<^verbatim>\<open>ReadWriteTx\<close> and \<^verbatim>\<open>Watch\<close>
  pass the incoming context unchanged, and the methods without a context pass their
  arguments unchanged.
\<close>

theorem ctxProxy_severs:
  "(\<not> is_ReadWriteTx_or_Watch call \<and> datastore_call_ctx call = Some ctx \<longrightarrow>
      (\<exists>ctx'. datastore_call_ctx (ctxProxy call) = Some ctx' \<and> severed ctx ctx'))
   \<and> (is_ReadWriteTx_or_Watch call \<longrightarrow> ctxProxy call = call)
   \<and> (datastore_call_ctx call = None \<longrightarrow> ctxProxy call = call)
   \<and> severed (reader_call_ctx rcall) (reader_call_ctx (ctxReader rcall))"
proof (intro conjI impI)
  assume "\<not> is_ReadWriteTx_or_Watch call \<and> datastore_call_ctx call = Some ctx"
  then show "\<exists>ctx'. datastore_call_ctx (ctxProxy call) = Some ctx' \<and> severed ctx ctx'"
    by (cases call)
       (simp_all add: ctxProxy_OptimizedRevision_def ctxProxy_CheckRevision_def
          ctxProxy_HeadRevision_def ctxProxy_Features_def ctxProxy_Statistics_def
          ctxProxy_ReadyState_def severed_SeparateContextWithTracing)
next
  assume "is_ReadWriteTx_or_Watch call"
  then show "ctxProxy call = call"
    by (cases call) (simp_all add: ctxProxy_ReadWriteTx_def ctxProxy_Watch_def)
next
  assume "datastore_call_ctx call = None"
  then show "ctxProxy call = call"
    by (cases call)
       (simp_all add: ctxProxy_RevisionFromString_def ctxProxy_Close_def
          ctxProxy_SnapshotReader_def)
next
  show "severed (reader_call_ctx rcall) (reader_call_ctx (ctxReader rcall))"
    by (cases rcall)
       (simp_all add: ctxReader_ReadCaveatByName_def ctxReader_ListAllCaveats_def
          ctxReader_LookupCaveatsWithNames_def ctxReader_ListAllNamespaces_def
          ctxReader_LookupNamespacesWithNames_def ctxReader_ReadNamespaceByName_def
          ctxReader_QueryRelationships_def ctxReader_ReverseQueryRelationships_def
          severed_SeparateContextWithTracing)
qed

text \<open>
  The theorem at the request context: \<^verbatim>\<open>HeadRevision\<close> and \<^verbatim>\<open>ListAllCaveats\<close> hand over
  the background context with only the span and the logger attached, \<^verbatim>\<open>Watch\<close> hands
  over the request context, \<^verbatim>\<open>Close\<close> takes no context.
\<close>

theorem ctxProxy_severs_witness:
  "\<not> is_ReadWriteTx_or_Watch (HeadRevision request_ctx :: (unit, unit) datastore_call)
   \<and> datastore_call_ctx (HeadRevision request_ctx :: (unit, unit) datastore_call) = Some request_ctx
   \<and> datastore_call_ctx (ctxProxy (HeadRevision request_ctx :: (unit, unit) datastore_call))
       = Some (WithValue (WithValue Background SpanKey (SpanValue (RecordingSpan 7)))
                 LoggerKey (LoggerValue 3))
   \<and> severed request_ctx (WithValue (WithValue Background SpanKey (SpanValue (RecordingSpan 7)))
                 LoggerKey (LoggerValue 3))
   \<and> severed request_ctx
       (reader_call_ctx (ctxReader (ListAllCaveats request_ctx :: (unit, unit) reader_call)))
   \<and> is_ReadWriteTx_or_Watch (Watch request_ctx () :: (unit, unit) datastore_call)
   \<and> ctxProxy (Watch request_ctx () :: (unit, unit) datastore_call) = Watch request_ctx ()
   \<and> datastore_call_ctx (Close :: (unit, unit) datastore_call) = None
   \<and> ctxProxy (Close :: (unit, unit) datastore_call) = Close"
proof -
  have e: "datastore_call_ctx (ctxProxy (HeadRevision request_ctx :: (unit, unit) datastore_call))
       = Some (WithValue (WithValue Background SpanKey (SpanValue (RecordingSpan 7)))
                 LoggerKey (LoggerValue 3))"
    by (simp add: ctxProxy_HeadRevision_def SeparateContextWithTracing_def request_ctx_def
        SpanFromContext_def log_Ctx_def ContextWithSpan_def Logger_WithContext_def)
  show ?thesis
    using e
      ctxProxy_severs [of "HeadRevision request_ctx :: (unit, unit) datastore_call" request_ctx
        "ListAllCaveats request_ctx :: (unit, unit) reader_call"]
      ctxProxy_severs [of "Watch request_ctx () :: (unit, unit) datastore_call" request_ctx
        "ListAllCaveats request_ctx :: (unit, unit) reader_call"]
      ctxProxy_severs [of "Close :: (unit, unit) datastore_call" request_ctx
        "ListAllCaveats request_ctx :: (unit, unit) reader_call"]
    by simp
qed

subsection \<open>The matcher accepts the language of the expression\<close>

lemma conc_assoc: "conc (conc A B) C = conc A (conc B C)"
  unfolding conc_def
  apply (auto)
   apply (metis append.assoc)
  apply (metis append.assoc)
  done

lemma conc_empty [simp]: "conc {} B = {}" "conc A {} = {}"
  by (auto simp: conc_def)

lemma conc_eps [simp]: "conc {[]} B = B" "conc A {[]} = A"
  by (auto simp: conc_def)

lemma conc_Un_right: "conc A (B \<union> C) = conc A B \<union> conc A C"
  by (auto simp: conc_def)

lemma conc_UN_right: "conc A (\<Union>k \<in> K. F k) = (\<Union>k \<in> K. conc A (F k))"
  by (auto simp: conc_def)

lemma conc_mono: "B \<subseteq> C \<Longrightarrow> conc A B \<subseteq> conc A C"
  by (auto simp: conc_def)

lemma Deriv_conc:
  "Deriv c (conc A B) = conc (Deriv c A) B \<union> (if [] \<in> A then Deriv c B else {})"
proof -
  have "w \<in> Deriv c (conc A B) \<longleftrightarrow>
        w \<in> conc (Deriv c A) B \<union> (if [] \<in> A then Deriv c B else {})" for w
  proof
    assume "w \<in> Deriv c (conc A B)"
    then obtain u v where uv: "c # w = u @ v" "u \<in> A" "v \<in> B"
      by (auto simp: Deriv_def conc_def)
    show "w \<in> conc (Deriv c A) B \<union> (if [] \<in> A then Deriv c B else {})"
    proof (cases u)
      case Nil
      with uv show ?thesis by (auto simp: Deriv_def)
    next
      case (Cons a u')
      with uv have "a = c" "w = u' @ v" "c # u' \<in> A" by auto
      with uv show ?thesis by (auto simp: Deriv_def conc_def)
    qed
  next
    assume "w \<in> conc (Deriv c A) B \<union> (if [] \<in> A then Deriv c B else {})"
    then consider "w \<in> conc (Deriv c A) B" | "[] \<in> A" "w \<in> Deriv c B"
      by (auto split: if_splits)
    then show "w \<in> Deriv c (conc A B)"
    proof cases
      case 1
      then obtain u v where "w = u @ v" "c # u \<in> A" "v \<in> B"
        by (auto simp: Deriv_def conc_def)
      then have "c # w = (c # u) @ v \<and> c # u \<in> A \<and> v \<in> B" by simp
      then show ?thesis unfolding Deriv_def conc_def by blast
    next
      case 2
      then have "c # w = [] @ (c # w) \<and> [] \<in> A \<and> c # w \<in> B" by (simp add: Deriv_def)
      then show ?thesis unfolding Deriv_def conc_def by blast
    qed
  qed
  then show ?thesis by blast
qed

lemma pow_step_mono: "[] \<in> A \<Longrightarrow> pow A k \<subseteq> pow A (Suc k)"
  by (induction k) (auto simp: conc_def)

lemma pow_mono: "[] \<in> A \<Longrightarrow> j \<le> k \<Longrightarrow> pow A j \<subseteq> pow A k"
proof (induction k)
  case 0 then show ?case by simp
next
  case (Suc k)
  show ?case
  proof (cases "j = Suc k")
    case True then show ?thesis by simp
  next
    case False
    with Suc have "pow A j \<subseteq> pow A k" by simp
    with pow_step_mono [OF Suc.prems(1), of k] show ?thesis by blast
  qed
qed

lemma Deriv_pow_Suc: "Deriv c (pow A (Suc k)) = conc (Deriv c A) (pow A k)"
proof (induction k)
  case 0
  show ?case by (simp add: Deriv_def)
next
  case (Suc k)
  have "Deriv c (pow A (Suc (Suc k))) =
      conc (Deriv c A) (pow A (Suc k)) \<union> (if [] \<in> A then Deriv c (pow A (Suc k)) else {})"
    using Deriv_conc [of c A "pow A (Suc k)"] by simp
  also have "\<dots> = conc (Deriv c A) (pow A (Suc k))"
  proof (cases "[] \<in> A")
    case True
    have "conc (Deriv c A) (pow A k) \<subseteq> conc (Deriv c A) (pow A (Suc k))"
      by (rule conc_mono) (rule pow_step_mono [OF True])
    with True Suc.IH show ?thesis by auto
  next
    case False then show ?thesis by simp
  qed
  finally show ?case .
qed

lemma Deriv_pow_0 [simp]: "Deriv c (pow A 0) = {}"
  by (simp add: Deriv_def)

lemma Deriv_UN: "Deriv c (\<Union>k \<in> K. F k) = (\<Union>k \<in> K. Deriv c (F k))"
  by (auto simp: Deriv_def)

lemma Deriv_pow_from: "Deriv c (\<Union>k \<in> {m..}. pow A k) = conc (Deriv c A) (\<Union>k \<in> {m - 1..}. pow A k)"
proof -
  have "(\<Union>k \<in> {m..}. Deriv c (pow A k)) = (\<Union>k \<in> {m - 1..}. conc (Deriv c A) (pow A k))"
  proof (intro set_eqI iffI)
    fix w assume "w \<in> (\<Union>k \<in> {m..}. Deriv c (pow A k))"
    then obtain k where k: "m \<le> k" "w \<in> Deriv c (pow A k)" by auto
    then obtain j where "k = Suc j" by (cases k) (auto simp: Deriv_def)
    with k have "m - 1 \<le> j" "w \<in> conc (Deriv c A) (pow A j)"
      by (auto simp: Deriv_pow_Suc simp del: pow.simps)
    then show "w \<in> (\<Union>k \<in> {m - 1..}. conc (Deriv c A) (pow A k))" by auto
  next
    fix w assume "w \<in> (\<Union>k \<in> {m - 1..}. conc (Deriv c A) (pow A k))"
    then obtain j where "m - 1 \<le> j" "w \<in> conc (Deriv c A) (pow A j)" by auto
    then have "m \<le> Suc j" "w \<in> Deriv c (pow A (Suc j))"
      by (auto simp: Deriv_pow_Suc simp del: pow.simps)
    then show "w \<in> (\<Union>k \<in> {m..}. Deriv c (pow A k))" by blast
  qed
  then show ?thesis by (simp add: Deriv_UN conc_UN_right)
qed

lemma Deriv_pow_between:
  assumes "0 < n" "m \<le> n"
  shows "Deriv c (\<Union>k \<in> {m..n}. pow A k) = conc (Deriv c A) (\<Union>k \<in> {m - 1..n - 1}. pow A k)"
proof -
  have "(\<Union>k \<in> {m..n}. Deriv c (pow A k)) = (\<Union>k \<in> {m - 1..n - 1}. conc (Deriv c A) (pow A k))"
  proof (intro set_eqI iffI)
    fix w assume "w \<in> (\<Union>k \<in> {m..n}. Deriv c (pow A k))"
    then obtain k where k: "m \<le> k" "k \<le> n" "w \<in> Deriv c (pow A k)" by auto
    then obtain j where "k = Suc j" by (cases k) (auto simp: Deriv_def)
    with k have "m - 1 \<le> j" "j \<le> n - 1" "w \<in> conc (Deriv c A) (pow A j)"
      by (auto simp: Deriv_pow_Suc simp del: pow.simps)
    then show "w \<in> (\<Union>k \<in> {m - 1..n - 1}. conc (Deriv c A) (pow A k))" by auto
  next
    fix w assume "w \<in> (\<Union>k \<in> {m - 1..n - 1}. conc (Deriv c A) (pow A k))"
    then obtain j where "m - 1 \<le> j" "j \<le> n - 1" "w \<in> conc (Deriv c A) (pow A j)" by auto
    with assms have "m \<le> Suc j" "Suc j \<le> n" "w \<in> Deriv c (pow A (Suc j))"
      by (auto simp: Deriv_pow_Suc simp del: pow.simps)
    then show "w \<in> (\<Union>k \<in> {m..n}. Deriv c (pow A k))" by (meson UN_I atLeastAtMost_iff)
  qed
  then show ?thesis by (simp add: Deriv_UN conc_UN_right)
qed

lemma Nil_in_pow: "[] \<in> pow A k \<longleftrightarrow> k = 0 \<or> [] \<in> A"
  by (induction k) (auto simp: conc_def)

lemma nullable_lang: "nullable r \<longleftrightarrow> [] \<in> lang r"
proof (induction r)
  case (Rep r m mx)
  show ?case
  proof (cases mx)
    case None
    with Rep show ?thesis by (auto simp: Nil_in_pow)
  next
    case (Some n)
    with Rep show ?thesis by (auto simp: Nil_in_pow)
  qed
qed (auto simp: conc_def)

lemma lang_deriv: "lang (deriv c r) = Deriv c (lang r)"
proof (induction r)
  case Zero show ?case by (simp add: Deriv_def)
next
  case Eps show ?case by (simp add: Deriv_def)
next
  case (Class ranges) show ?case by (auto simp: Deriv_def)
next
  case (Seq r s) then show ?case by (simp add: Deriv_conc nullable_lang)
next
  case (Alt r s) then show ?case by (auto simp: Deriv_def)
next
  case (Rep r m mx)
  show ?case
  proof (cases mx)
    case None
    with Rep show ?thesis by (simp add: Deriv_pow_from)
  next
    case (Some n)
    show ?thesis
    proof (cases "n = 0 \<or> n < m")
      case True
      then have "Deriv c (\<Union>k \<in> {m..n}. pow (lang r) k) = {}"
        by (auto simp: Deriv_def)
      with True Some show ?thesis by simp
    next
      case False
      with Some Rep show ?thesis by (simp add: Deriv_pow_between)
    qed
  qed
qed

lemma lang_derivs: "lang (derivs w r) = {v. w @ v \<in> lang r}"
  by (induction w arbitrary: r) (simp_all add: lang_deriv Deriv_def)

lemma MatchString_lang: "MatchString r w \<longleftrightarrow> w \<in> lang r"
  by (simp add: MatchString_def nullable_lang lang_derivs)

subsection \<open>The languages of the patterns\<close>

lemma in_class_Cons:
  "in_class ((lo, hi) # ranges) c \<longleftrightarrow> (lo \<le> c \<and> c \<le> hi) \<or> in_class ranges c"
  by (simp add: in_class_def less_eq_char_def)

lemma in_class_Nil: "\<not> in_class [] c"
  by (simp add: in_class_def)

lemma in_class_lower: "in_class lower c = is_lower c"
  by (simp add: lower_def in_class_Cons in_class_Nil is_lower_def)

lemma in_class_lower_digit: "in_class lower_digit c = (is_lower c \<or> is_digit c)"
  by (simp add: lower_digit_def in_class_Cons in_class_Nil is_lower_def is_digit_def)

lemma in_class_lower_digit_underscore:
  "in_class lower_digit_underscore c = (is_lower c \<or> is_digit c \<or> c = CHR ''_'')"
  by (auto simp add: lower_digit_underscore_def in_class_Cons in_class_Nil is_lower_def is_digit_def)

lemma in_class_object_id_chars: "in_class object_id_chars c = is_object_id_char c"
  by (auto simp add: object_id_chars_def in_class_Cons in_class_Nil is_object_id_char_def
      is_lower_def is_upper_def is_digit_def)

lemma in_class_caveat_first_chars:
  "in_class caveat_first_chars c = (is_lower c \<or> is_upper c \<or> is_digit c \<or> c = CHR ''_'')"
  by (auto simp add: caveat_first_chars_def in_class_Cons in_class_Nil
      is_lower_def is_upper_def is_digit_def)

lemma in_class_caveat_chars:
  "in_class caveat_chars c = (is_lower c \<or> is_upper c \<or> is_digit c \<or> c \<in> set ''/_|-'')"
  by (auto simp add: caveat_chars_def in_class_Cons in_class_Nil
      is_lower_def is_upper_def is_digit_def)

lemma pow_Class: "pow (lang (Class ranges)) k = {w. length w = k \<and> list_all (in_class ranges) w}"
proof (induction k)
  case 0
  show ?case by auto
next
  case (Suc k)
  have "conc {[c] | c. in_class ranges c} {w. length w = k \<and> list_all (in_class ranges) w}
      = {w. length w = Suc k \<and> list_all (in_class ranges) w}" (is "?L = ?R")
  proof (intro set_eqI iffI)
    fix w assume "w \<in> ?L"
    then show "w \<in> ?R" by (auto simp: conc_def)
  next
    fix w assume "w \<in> ?R"
    then obtain c v where "w = [c] @ v" "in_class ranges c" "length v = k"
      "list_all (in_class ranges) v"
      by (cases w) auto
    then show "w \<in> ?L" unfolding conc_def by blast
  qed
  with Suc show ?case by simp
qed

lemma lang_Rep_Class_Some:
  "lang (Rep (Class ranges) m (Some n)) =
     {w. m \<le> length w \<and> length w \<le> n \<and> (\<forall>c \<in> set w. in_class ranges c)}"
  by (auto simp: pow_Class list_all_iff simp del: lang.simps(3))

lemma lang_Rep_Class_None:
  "lang (Rep (Class ranges) m None) =
     {w. m \<le> length w \<and> (\<forall>c \<in> set w. in_class ranges c)}"
  by (auto simp: pow_Class list_all_iff simp del: lang.simps(3))

lemma lang_Lit: "lang (Lit c) = {[c]}"
  by (auto simp: Lit_def in_class_def)

lemma lang_Quest: "lang (Quest r) = {[]} \<union> lang r"
proof -
  have "{0..Suc 0} = {0, Suc 0}" by auto
  then show ?thesis by (simp add: Quest_def)
qed

lemma lang_ident_pattern:
  "w \<in> lang (ident_pattern n) \<longleftrightarrow> lowercase_identifier n w"
proof
  assume "w \<in> lang (ident_pattern n)"
  then obtain c mid d where w: "w = [c] @ mid @ [d]" and c: "is_lower c"
    and mid: "1 \<le> length mid" "length mid \<le> n"
      "list_all (\<lambda>c. is_lower c \<or> is_digit c \<or> c = CHR ''_'') mid"
    and d: "is_lower d \<or> is_digit d"
    unfolding ident_pattern_def
    by (auto simp: conc_def lang_Rep_Class_Some in_class_lower in_class_lower_digit
        in_class_lower_digit_underscore list_all_iff simp del: lang.simps(6,7))
  then show "lowercase_identifier n w"
    by (simp add: lowercase_identifier_def butlast_append)
next
  assume a: "lowercase_identifier n w"
  then have len: "3 \<le> length w" by (simp add: lowercase_identifier_def)
  then obtain c v where cv: "w = c # v" by (cases w) auto
  with len have "v \<noteq> []" by auto
  then obtain mid d where md: "v = mid @ [d]" by (metis append_butlast_last_id)
  from a cv md have props: "is_lower c" "1 \<le> length mid" "length mid \<le> n"
    "list_all (\<lambda>c. is_lower c \<or> is_digit c \<or> c = CHR ''_'') mid" "is_lower d \<or> is_digit d"
    by (auto simp: lowercase_identifier_def)
  have "mid \<in> lang (Rep (Class lower_digit_underscore) 1 (Some n))"
    using props
    by (simp add: lang_Rep_Class_Some in_class_lower_digit_underscore list_all_iff del: lang.simps)
  moreover have "[d] \<in> lang (Class lower_digit)" "[c] \<in> lang (Class lower)"
    using props by (simp_all add: in_class_lower_digit in_class_lower)
  ultimately have "[c] @ (mid @ [d]) \<in>
      conc (lang (Class lower)) (conc (lang (Rep (Class lower_digit_underscore) 1 (Some n)))
        (lang (Class lower_digit)))"
    unfolding conc_def by blast
  then show "w \<in> lang (ident_pattern n)"
    by (simp add: ident_pattern_def cv md del: lang.simps(3,6,7))
qed

lemma lowercase_identifier_no_slash: "lowercase_identifier n w \<Longrightarrow> CHR ''/'' \<notin> set w"
proof
  assume a: "lowercase_identifier n w" and s: "CHR ''/'' \<in> set w"
  then have len: "3 \<le> length w" by (simp add: lowercase_identifier_def)
  then obtain c v where cv: "w = c # v" by (cases w) auto
  with len have "v \<noteq> []" by auto
  then obtain mid d where md: "v = mid @ [d]" by (metis append_butlast_last_id)
  from a cv md have props: "is_lower c"
    "list_all (\<lambda>c. is_lower c \<or> is_digit c \<or> c = CHR ''_'') mid" "is_lower d \<or> is_digit d"
    by (auto simp: lowercase_identifier_def)
  have no: "\<not> is_lower CHR ''/''" "\<not> is_digit CHR ''/''"
    by (simp_all add: is_lower_def is_digit_def less_eq_char_def)
  from s cv md consider "c = CHR ''/''" | "CHR ''/'' \<in> set mid" | "d = CHR ''/''" by auto
  then show False
    using props no by cases (auto simp: list_all_iff)
qed

lemma lang_namespace_pattern:
  "w \<in> lang namespace_pattern \<longleftrightarrow> prefixed_identifier w"
proof -
  let ?P = "lang (Seq (Class lower) (Seq (Rep (Class lower_digit_underscore) 1 (Some 61))
                   (Seq (Class lower_digit) (Lit CHR ''/''))))"
  have P: "?P = {p @ ''/'' | p. lowercase_identifier 61 p}"
  proof -
    have "?P = conc (lang (ident_pattern 61)) {''/''}"
      by (simp add: ident_pattern_def conc_assoc lang_Lit del: lang.simps(3,6,7))
    then show ?thesis by (auto simp: conc_def lang_ident_pattern)
  qed
  have L: "lang namespace_pattern = conc ({[]} \<union> ?P) (lang (ident_pattern 62))"
    by (simp add: namespace_pattern_def lang_Quest del: lang.simps(3,6,7))
  have split: "takeWhile (\<lambda>c. c \<noteq> CHR ''/'') (p @ ''/'' @ i) = p
      \<and> tl (dropWhile (\<lambda>c. c \<noteq> CHR ''/'') (p @ ''/'' @ i)) = i" if "CHR ''/'' \<notin> set p" for p i
    using that by (simp add: takeWhile_append dropWhile_append)
  show ?thesis
  proof
    assume "w \<in> lang namespace_pattern"
    then consider "lowercase_identifier 62 w"
      | p i where "w = p @ ''/'' @ i" "lowercase_identifier 61 p" "lowercase_identifier 62 i"
      unfolding L P by (auto simp: conc_def lang_ident_pattern)
    then show "prefixed_identifier w"
    proof cases
      case 1
      then show ?thesis by (simp add: prefixed_identifier_def lowercase_identifier_no_slash)
    next
      case 2
      then have "CHR ''/'' \<notin> set p" by (simp add: lowercase_identifier_no_slash)
      from split [OF this, of i] 2 show ?thesis by (simp add: prefixed_identifier_def)
    qed
  next
    assume a: "prefixed_identifier w"
    show "w \<in> lang namespace_pattern"
    proof (cases "CHR ''/'' \<in> set w")
      case False
      with a have "lowercase_identifier 62 w" by (simp add: prefixed_identifier_def)
      then have "[] @ w \<in> conc ({[]} \<union> ?P) (lang (ident_pattern 62))"
        unfolding conc_def using lang_ident_pattern by blast
      then show ?thesis by (simp add: L del: lang.simps)
    next
      case True
      let ?p = "takeWhile (\<lambda>c. c \<noteq> CHR ''/'') w"
      let ?i = "tl (dropWhile (\<lambda>c. c \<noteq> CHR ''/'') w)"
      from True a have pi: "lowercase_identifier 61 ?p" "lowercase_identifier 62 ?i"
        by (simp_all add: prefixed_identifier_def)
      from True have "dropWhile (\<lambda>c. c \<noteq> CHR ''/'') w \<noteq> []" by simp
      moreover have "hd (dropWhile (\<lambda>c. c \<noteq> CHR ''/'') w) = CHR ''/''"
        using True hd_dropWhile [of "\<lambda>c. c \<noteq> CHR ''/''" w] by auto
      ultimately have "dropWhile (\<lambda>c. c \<noteq> CHR ''/'') w = CHR ''/'' # ?i"
        by (metis list.collapse)
      then have "w = (?p @ ''/'') @ ?i"
        using takeWhile_dropWhile_id [of "\<lambda>c. c \<noteq> CHR ''/''" w] by simp
      moreover have "?p @ ''/'' \<in> {[]} \<union> ?P" unfolding P using pi by blast
      moreover have "?i \<in> lang (ident_pattern 62)" using pi by (simp add: lang_ident_pattern)
      ultimately have "w \<in> conc ({[]} \<union> ?P) (lang (ident_pattern 62))"
        unfolding conc_def by blast
      then show ?thesis by (simp add: L del: lang.simps)
    qed
  qed
qed

lemma lang_object_id_pattern:
  "w \<in> lang object_id_pattern \<longleftrightarrow> object_id_string w \<or> w = PublicWildcard"
proof -
  have "(1 \<le> length w) = (w \<noteq> [])" by (cases w) auto
  then show ?thesis
    by (auto simp add: object_id_pattern_def lang_Rep_Class_None lang_Lit object_id_string_def
        in_class_object_id_chars list_all_iff PublicWildcard_def simp del: lang.simps(3,6,7))
qed

lemma lang_relation_pattern:
  "w \<in> lang relation_pattern \<longleftrightarrow> w = Ellipsis \<or> lowercase_identifier 62 w"
  by (auto simp add: relation_pattern_def lang_Lit conc_def lang_ident_pattern Ellipsis_def
      simp del: lang.simps(3,6,7))

lemma lang_caveat_name_pattern:
  "w \<in> lang caveat_name_pattern \<longleftrightarrow> caveat_name w"
proof -
  let ?A = "conc (lang (Class caveat_first_chars)) (lang (Rep (Class caveat_chars) 0 (Some 127)))"
  have A: "w \<in> ?A \<longleftrightarrow> (w \<noteq> [] \<and> length w \<le> 128
       \<and> (is_lower (hd w) \<or> is_upper (hd w) \<or> is_digit (hd w) \<or> hd w = CHR ''_'')
       \<and> list_all (\<lambda>c. is_lower c \<or> is_upper c \<or> is_digit c \<or> c \<in> set ''/_|-'') (tl w))"
    (is "_ \<longleftrightarrow> ?R")
  proof
    assume "w \<in> ?A"
    then obtain c v where "w = [c] @ v" "in_class caveat_first_chars c" "length v \<le> 127"
      "\<forall>x \<in> set v. in_class caveat_chars x"
      by (auto simp: conc_def lang_Rep_Class_Some simp del: lang.simps(6,7))
    then show ?R
      by (simp add: in_class_caveat_first_chars in_class_caveat_chars list_all_iff)
  next
    assume r: ?R
    then obtain c v where cv: "w = c # v" by (cases w) auto
    with r have "[c] \<in> lang (Class caveat_first_chars)"
      "v \<in> lang (Rep (Class caveat_chars) 0 (Some 127))"
      by (simp_all add: lang_Rep_Class_Some in_class_caveat_first_chars in_class_caveat_chars
          list_all_iff del: lang.simps(6,7))
    then have "[c] @ v \<in> ?A" unfolding conc_def by blast
    with cv show "w \<in> ?A" by simp
  qed
  have "w \<in> lang caveat_name_pattern \<longleftrightarrow> w \<in> ?A \<or> w = PublicWildcard"
    by (auto simp add: caveat_name_pattern_def lang_Lit PublicWildcard_def
        simp del: lang.simps(3,6,7))
  with A show ?thesis by (auto simp: caveat_name_def)
qed

subsection \<open>Validation of the core messages\<close>

lemmas pattern_defs = MatchString_def namespace_pattern_def relation_pattern_def
  object_id_pattern_def ident_pattern_def Quest_def Lit_def lower_def lower_digit_def
  lower_digit_underscore_def object_id_chars_def in_class_def

lemma lowercase_identifier_length: "lowercase_identifier n s \<Longrightarrow> length s \<le> n + 2"
  by (simp add: lowercase_identifier_def)

lemma prefixed_identifier_length:
  assumes "prefixed_identifier s"
  shows "length s \<le> 128"
proof (cases "CHR ''/'' \<in> set s")
  case False
  with assms have "lowercase_identifier 62 s"
    unfolding prefixed_identifier_def by (simp only: if_False)
  from lowercase_identifier_length [OF this] show ?thesis by simp
next
  case True
  define p where "p = takeWhile (\<lambda>c. c \<noteq> CHR ''/'') s"
  define d where "d = dropWhile (\<lambda>c. c \<noteq> CHR ''/'') s"
  from True assms have "lowercase_identifier 61 p \<and> lowercase_identifier 62 (tl d)"
    unfolding prefixed_identifier_def p_def d_def by (simp only: if_True)
  then have "length p \<le> 63" "length (tl d) \<le> 64"
    using lowercase_identifier_length [of 61 p] lowercase_identifier_length [of 62 "tl d"]
    by simp_all
  moreover have "length d \<le> Suc (length (tl d))" by (cases d) simp_all
  moreover have "s = p @ d"
    unfolding p_def d_def by (rule takeWhile_dropWhile_id [symmetric])
  then have "length s = length p + length d" by (simp only: length_append)
  ultimately show ?thesis by linarith
qed

lemma ObjectAndRelation_Validate_accepts:
  "ObjectAndRelation_Validate m = None \<longleftrightarrow>
     prefixed_identifier (namespace m)
     \<and> (object_id m = PublicWildcard \<or> object_id_string (object_id m)) \<and> length (object_id m) \<le> 1024
     \<and> (ObjectAndRelation.relation m = Ellipsis \<or> lowercase_identifier 62 (ObjectAndRelation.relation m))"
proof -
  have ns: "length (namespace m) \<le> 128" if "prefixed_identifier (namespace m)"
    using that by (rule prefixed_identifier_length)
  have rel: "length (ObjectAndRelation.relation m) \<le> 64"
    if "ObjectAndRelation.relation m = Ellipsis \<or> lowercase_identifier 62 (ObjectAndRelation.relation m)"
    using that lowercase_identifier_length [of 62 "ObjectAndRelation.relation m"]
    by (auto simp: Ellipsis_def)
  show ?thesis
    unfolding ObjectAndRelation_Validate_def MatchString_lang lang_namespace_pattern
      lang_object_id_pattern lang_relation_pattern
    using ns rel by (auto simp: not_less)
qed

lemma accepted_iff_imp:
  "(A \<longleftrightarrow> P \<and> Q \<and> L \<and> R) \<Longrightarrow> (A \<longrightarrow> P \<and> R \<and> Q) \<and> (\<not> (P \<and> R \<and> Q) \<longrightarrow> \<not> A)"
  by blast

text \<open>
  C7, as stated, fails: the relation pattern also admits the ellipsis \<^verbatim>\<open>...\<close>, which is
  no lowercase identifier, and the namespace pattern admits a prefix and a slash before
  the identifier. The value below is accepted, and neither its relation nor its namespace
  is a lowercase identifier.
\<close>

theorem ObjectAndRelation_counterexample:
  "ObjectAndRelation_Validate document_ellipsis = None
   \<and> \<not> lowercase_identifier 62 (ObjectAndRelation.relation document_ellipsis)
   \<and> \<not> lowercase_identifier 62 (namespace document_ellipsis)"
proof -
  have "ObjectAndRelation_Validate document_ellipsis = None"
    by (simp add: ObjectAndRelation_Validate_def document_ellipsis_def pattern_defs)
  moreover have "\<not> lowercase_identifier 62 ''...''"
    by (simp add: lowercase_identifier_def is_lower_def less_eq_char_def)
  moreover have "\<not> lowercase_identifier 62 ''tenant/document''"
    by (simp add: lowercase_identifier_def is_lower_def is_digit_def less_eq_char_def)
  ultimately show ?thesis by (simp add: document_ellipsis_def)
qed

text \<open>
  C7, amended. For every ObjectAndRelation accepted by validation: its namespace is a
  lowercase identifier, optionally preceded by a lowercase identifier of at most 63
  characters and a slash; its relation is a lowercase identifier or the ellipsis
  \<^verbatim>\<open>...\<close>; its object id is the wildcard \<^verbatim>\<open>*\<close> or a non-empty string of the allowed
  characters. Any value outside these patterns is rejected. (The lemma
  \<open>ObjectAndRelation_Validate_accepts\<close> gives the accepted values exactly: these, with an
  object id of at most 1024 bytes.)
\<close>

theorem ObjectAndRelation_Validate_spec:
  "(ObjectAndRelation_Validate m = None \<longrightarrow>
      prefixed_identifier (namespace m)
      \<and> (ObjectAndRelation.relation m = Ellipsis
           \<or> lowercase_identifier 62 (ObjectAndRelation.relation m))
      \<and> (object_id m = PublicWildcard \<or> object_id_string (object_id m)))
   \<and> (\<not> (prefixed_identifier (namespace m)
           \<and> (ObjectAndRelation.relation m = Ellipsis
                \<or> lowercase_identifier 62 (ObjectAndRelation.relation m))
           \<and> (object_id m = PublicWildcard \<or> object_id_string (object_id m)))
        \<longrightarrow> ObjectAndRelation_Validate m \<noteq> None)"
  by (rule accepted_iff_imp) (rule ObjectAndRelation_Validate_accepts)

text \<open>The theorem at an accepted value and at one whose relation has an uppercase letter.\<close>

theorem ObjectAndRelation_Validate_spec_witness:
  "ObjectAndRelation_Validate document_viewer = None
   \<and> prefixed_identifier (namespace document_viewer)
   \<and> lowercase_identifier 62 (ObjectAndRelation.relation document_viewer)
   \<and> object_id_string (object_id document_viewer)
   \<and> \<not> lowercase_identifier 62 (ObjectAndRelation.relation document_Viewer)
   \<and> ObjectAndRelation.relation document_Viewer \<noteq> Ellipsis
   \<and> ObjectAndRelation_Validate document_Viewer = Some (Violation ''relation'' Pattern)"
proof -
  have a: "ObjectAndRelation_Validate document_viewer = None"
    by (simp add: ObjectAndRelation_Validate_def document_viewer_def pattern_defs)
  have b: "\<not> lowercase_identifier 62 (ObjectAndRelation.relation document_Viewer)"
    "ObjectAndRelation.relation document_Viewer \<noteq> Ellipsis"
    by (simp_all add: document_Viewer_def lowercase_identifier_def is_lower_def less_eq_char_def
        Ellipsis_def)
  have c: "ObjectAndRelation_Validate document_Viewer = Some (Violation ''relation'' Pattern)"
    by (simp add: ObjectAndRelation_Validate_def document_Viewer_def pattern_defs)
  have d: "ObjectAndRelation.relation document_viewer \<noteq> Ellipsis"
    "object_id document_viewer \<noteq> PublicWildcard"
    by (simp_all add: document_viewer_def Ellipsis_def PublicWildcard_def)
  have acc: "prefixed_identifier (namespace document_viewer)
      \<and> (ObjectAndRelation.relation document_viewer = Ellipsis
           \<or> lowercase_identifier 62 (ObjectAndRelation.relation document_viewer))
      \<and> (object_id document_viewer = PublicWildcard \<or> object_id_string (object_id document_viewer))"
    by (rule mp [OF conjunct1 [OF ObjectAndRelation_Validate_spec] a])
  from acc have e1: "prefixed_identifier (namespace document_viewer)" by (rule conjunct1)
  from acc d(1) have e2: "lowercase_identifier 62 (ObjectAndRelation.relation document_viewer)"
    by blast
  from acc d(2) have e3: "object_id_string (object_id document_viewer)"
    by blast
  show ?thesis
    by (intro conjI) (rule a e1 e2 e3 b c)+
qed

text \<open>
  C10. Every CaveatDefinition accepted by validation has at least 1 and at most 20
  entries in \<open>parameter_types\<close>, a serialized expression of at most 4096 bytes, and a
  name of at most 128 bytes that matches the caveat-name pattern (a letter, digit or
  underscore followed by at most 127 letters, digits and \<^verbatim>\<open>/ _ | -\<close>, or the star); a
  definition violating any of these bounds is rejected.
\<close>

theorem CaveatDefinition_Validate_bounds:
  "(CaveatDefinition_Validate m = None \<longrightarrow>
      1 \<le> fcard (fmdom (parameter_types m)) \<and> fcard (fmdom (parameter_types m)) \<le> 20
      \<and> length (serialized_expression m) \<le> 4096
      \<and> length (name m) \<le> 128 \<and> caveat_name (name m))
   \<and> (\<not> (1 \<le> fcard (fmdom (parameter_types m)) \<and> fcard (fmdom (parameter_types m)) \<le> 20
           \<and> length (serialized_expression m) \<le> 4096
           \<and> length (name m) \<le> 128 \<and> caveat_name (name m))
        \<longrightarrow> CaveatDefinition_Validate m \<noteq> None)"
proof -
  have "1 \<le> fcard (fmdom (parameter_types m)) \<and> fcard (fmdom (parameter_types m)) \<le> 20
      \<and> length (serialized_expression m) \<le> 4096
      \<and> length (name m) \<le> 128 \<and> caveat_name (name m)"
    if "CaveatDefinition_Validate m = None"
  proof -
    have "fcard (fmdom (parameter_types m)) \<noteq> 0 \<Longrightarrow> 1 \<le> fcard (fmdom (parameter_types m))"
      by linarith
    with that show ?thesis
      unfolding CaveatDefinition_Validate_def MatchString_lang lang_caveat_name_pattern
      by (simp add: not_less split: if_splits)
  qed
  then show ?thesis by blast
qed

text \<open>The theorem at a definition with one parameter and at one with none.\<close>

theorem CaveatDefinition_Validate_bounds_witness:
  "CaveatDefinition_Validate ip_in_range = None
   \<and> fcard (fmdom (parameter_types ip_in_range)) = 1
   \<and> length (serialized_expression ip_in_range) \<le> 4096
   \<and> length (name ip_in_range) \<le> 128
   \<and> caveat_name (name ip_in_range)
   \<and> fcard (fmdom (parameter_types no_parameters)) = 0
   \<and> CaveatDefinition_Validate no_parameters \<noteq> None
   \<and> CaveatDefinition_Validate no_parameters = Some (Violation ''parameter_types'' MinPairs)"
proof -
  have card: "fcard (fmdom (parameter_types ip_in_range)) = 1"
    by (simp add: ip_in_range_def fcard_finsert_if)
  have a: "CaveatDefinition_Validate ip_in_range = None"
    unfolding CaveatDefinition_Validate_def card
    by (simp add: ip_in_range_def MatchString_def caveat_name_pattern_def Lit_def
        caveat_first_chars_def caveat_chars_def in_class_def embedded_def
        sorted_list_of_fset.rep_eq)
  have b: "fcard (fmdom (parameter_types no_parameters)) = 0"
    by (simp add: no_parameters_def)
  have c: "CaveatDefinition_Validate no_parameters = Some (Violation ''parameter_types'' MinPairs)"
    unfolding CaveatDefinition_Validate_def b
    by (simp add: no_parameters_def MatchString_def caveat_name_pattern_def Lit_def
        caveat_first_chars_def caveat_chars_def in_class_def)
  have acc: "1 \<le> fcard (fmdom (parameter_types ip_in_range))
      \<and> fcard (fmdom (parameter_types ip_in_range)) \<le> 20
      \<and> length (serialized_expression ip_in_range) \<le> 4096
      \<and> length (name ip_in_range) \<le> 128 \<and> caveat_name (name ip_in_range)"
    by (rule mp [OF conjunct1 [OF CaveatDefinition_Validate_bounds] a])
  have rej: "CaveatDefinition_Validate no_parameters \<noteq> None"
    by (rule mp [OF conjunct2 [OF CaveatDefinition_Validate_bounds]]) (simp only: b, simp)
  from acc have e: "length (serialized_expression ip_in_range) \<le> 4096"
    "length (name ip_in_range) \<le> 128" "caveat_name (name ip_in_range)"
    by blast+
  show ?thesis
    by (intro conjI) (rule a card e b rej c)+
qed

lemma relation_name_viewer: "MatchString relation_name_pattern ''viewer''"
  by (simp add: relation_name_pattern_def pattern_defs)

lemma Child_Validate_computed_child: "Child_Validate (computed_child ''viewer'') = None"
  by (simp add: computed_child_def embedded_def required_def ComputedUserset_Validate_def
      relation_name_viewer SourcePosition_Validate_def)

lemma SetOperation_items_Validate_replicate:
  "SetOperation_items_Validate idx (replicate n (Some (computed_child ''viewer''))) = None"
  by (induction n arbitrary: idx) (simp_all add: Child_Validate_computed_child)

lemma exclusion_of_replicate:
  "1 \<le> n \<Longrightarrow> UsersetRewrite_Validate (exclusion_of (replicate n (computed_child ''viewer''))) = None"
  by (cases n)
     (simp_all add: exclusion_of_def embedded_def SetOperation_items_Validate_replicate
        Child_Validate_computed_child
        SetOperation_items_Validate_replicate [of _ _, unfolded replicate.simps])

text \<open>
  C6, as stated, fails against the validation rules: \<^verbatim>\<open>SetOperation.child\<close> only has
  \<^verbatim>\<open>min_items = 1\<close>, for the three variants alike. An exclusion with one child is
  accepted, and so is one with three children.
\<close>

theorem exclusion_two_children_counterexample:
  "UsersetRewrite_Validate (exclusion_of [computed_child ''viewer'']) = None
   \<and> is_exclusion (exclusion_of [computed_child ''viewer''])
   \<and> set_operation (exclusion_of [computed_child ''viewer''])
       = Some (SetOperation [Some (computed_child ''viewer'')])
   \<and> UsersetRewrite_Validate (exclusion_of
        [computed_child ''viewer'', computed_child ''viewer'', computed_child ''viewer'']) = None"
proof -
  have one: "replicate 1 (computed_child ''viewer'') = [computed_child ''viewer'']"
    by simp
  have three: "replicate 3 (computed_child ''viewer'')
      = [computed_child ''viewer'', computed_child ''viewer'', computed_child ''viewer'']"
    by (simp add: numeral_3_eq_3)
  have a: "UsersetRewrite_Validate (exclusion_of [computed_child ''viewer'']) = None"
    using exclusion_of_replicate [of 1] unfolding one by simp
  have b: "UsersetRewrite_Validate (exclusion_of
        [computed_child ''viewer'', computed_child ''viewer'', computed_child ''viewer'']) = None"
    using exclusion_of_replicate [of 3] unfolding three by simp
  have c: "is_exclusion (exclusion_of [computed_child ''viewer''])"
    "set_operation (exclusion_of [computed_child ''viewer''])
       = Some (SetOperation [Some (computed_child ''viewer'')])"
    by (simp_all add: exclusion_of_def)
  show ?thesis
    by (intro conjI) (rule a b c)+
qed

lemma SetOperation_items_Validate_None:
  "SetOperation_items_Validate idx items = None \<Longrightarrow> None \<notin> set items"
proof (induction items arbitrary: idx)
  case Nil
  then show ?case by simp
next
  case (Cons item items)
  then show ?case by (cases item) (auto split: option.splits)
qed

text \<open>
  C6, amended. A validated UsersetRewrite, whatever its variant, has a set operation with
  at least one child, none of them nil; validation sets no upper bound on the number of
  children and has no rule of its own for exclusion: for every \<open>n \<ge> 1\<close> the exclusion
  with \<open>n\<close> children below is valid.
\<close>

theorem UsersetRewrite_Validate_children:
  "(UsersetRewrite_Validate rewrite = None \<longrightarrow>
      (\<exists>children. set_operation rewrite = Some (SetOperation children)
         \<and> 1 \<le> length children \<and> None \<notin> set children))
   \<and> (1 \<le> n \<longrightarrow>
        is_exclusion (exclusion_of (replicate n (computed_child ''viewer'')))
        \<and> set_operation (exclusion_of (replicate n (computed_child ''viewer'')))
            = Some (SetOperation (replicate n (Some (computed_child ''viewer''))))
        \<and> UsersetRewrite_Validate (exclusion_of (replicate n (computed_child ''viewer''))) = None)"
proof (intro conjI impI)
  assume v: "UsersetRewrite_Validate rewrite = None"
  obtain operation pos where rw: "rewrite = UsersetRewrite operation pos" by (cases rewrite)
  with v obtain op where op: "operation = Some op" "rewrite_operation_Validate op = None"
    by (cases operation) (auto split: option.splits)
  then obtain so where so: "set_operation rewrite = Some so" "SetOperation_Validate so = None"
    using rw by (cases op; cases "set_operation rewrite") (auto split: option.splits)
  obtain children where ch: "so = SetOperation children" by (cases so)
  with so have "children \<noteq> []" "SetOperation_items_Validate 0 children = None"
    by (auto split: if_splits)
  then have "1 \<le> length children" "SetOperation_items_Validate 0 children = None"
    by (cases children, simp_all)
  with ch so show "\<exists>children. set_operation rewrite = Some (SetOperation children)
         \<and> 1 \<le> length children \<and> None \<notin> set children"
    using SetOperation_items_Validate_None by blast
next
  assume "1 \<le> n"
  then show "UsersetRewrite_Validate (exclusion_of (replicate n (computed_child ''viewer''))) = None"
    by (rule exclusion_of_replicate)
next
  show "is_exclusion (exclusion_of (replicate n (computed_child ''viewer'')))"
    by (simp add: exclusion_of_def)
next
  show "set_operation (exclusion_of (replicate n (computed_child ''viewer'')))
            = Some (SetOperation (replicate n (Some (computed_child ''viewer''))))"
    by (simp add: exclusion_of_def map_replicate)
qed

text \<open>The theorem at an exclusion with two children and at \<open>n = 5\<close>.\<close>

theorem UsersetRewrite_Validate_children_witness:
  "UsersetRewrite_Validate (exclusion_of [computed_child ''viewer'', computed_child ''editor'']) = None
   \<and> (\<exists>children.
         set_operation (exclusion_of [computed_child ''viewer'', computed_child ''editor''])
           = Some (SetOperation children)
         \<and> 1 \<le> length children \<and> None \<notin> set children)
   \<and> (1::nat) \<le> 5
   \<and> UsersetRewrite_Validate (exclusion_of (replicate 5 (computed_child ''viewer''))) = None"
proof -
  have "MatchString relation_name_pattern ''editor''"
    by (simp add: relation_name_pattern_def pattern_defs)
  then have a: "UsersetRewrite_Validate
      (exclusion_of [computed_child ''viewer'', computed_child ''editor'']) = None"
    by (simp add: exclusion_of_def embedded_def computed_child_def required_def
        ComputedUserset_Validate_def relation_name_viewer SourcePosition_Validate_def)
  have b: "\<exists>children.
         set_operation (exclusion_of [computed_child ''viewer'', computed_child ''editor''])
           = Some (SetOperation children)
         \<and> 1 \<le> length children \<and> None \<notin> set children"
    by (rule mp [OF conjunct1 [OF UsersetRewrite_Validate_children] a])
  have five: "(1::nat) \<le> 5" by simp
  have c: "UsersetRewrite_Validate (exclusion_of (replicate 5 (computed_child ''viewer''))) = None"
    using mp [OF conjunct2 [OF UsersetRewrite_Validate_children] five] by (rule conjunct2 [THEN conjunct2])
  show ?thesis
    by (intro conjI) (rule a b five c)+
qed

subsection \<open>The optimized-revision cache\<close>

lemma OptimizedRevision_cached:
  "valid_at (cached cor) t = Some r \<Longrightarrow>
   CachedOptimizedRevisions_OptimizedRevision optimizedFunc t (cor, n) = (Inr r, (cor, n))"
  by (simp add: CachedOptimizedRevisions_OptimizedRevision_def)

lemma OptimizedRevision_refresh:
  "valid_at (cached cor) t = None \<Longrightarrow> optimizedFunc n = Inr (r, v) \<Longrightarrow>
   CachedOptimizedRevisions_OptimizedRevision optimizedFunc t (cor, n) =
     (Inr r, (cor\<lparr>cached := Some (r, t + v + maxRevisionStaleness cor)\<rparr>, Suc n))"
  by (simp add: CachedOptimizedRevisions_OptimizedRevision_def)

lemma requests_cached:
  "cached cor = Some (r, valid_until) \<Longrightarrow> \<forall>t \<in> set ts. t < valid_until \<Longrightarrow>
   requests optimizedFunc ts (cor, n) = (replicate (length ts) (Inr r), (cor, n))"
proof (induction ts)
  case Nil
  show ?case by simp
next
  case (Cons t ts)
  then have "valid_at (cached cor) t = Some r" by (simp add: valid_at_def)
  then have "CachedOptimizedRevisions_OptimizedRevision optimizedFunc t (cor, n) = (Inr r, (cor, n))"
    by (rule OptimizedRevision_cached)
  with Cons show ?case by simp
qed

text \<open>
  C1 (against the cache as section 4.3 of the spec describes it). When no valid revision
  is cached at instant \<open>t\<close> and the datastore function answers \<open>(r, v)\<close>, the request
  returns \<open>r\<close> and the cache stores \<open>valid_until = t + v + max_staleness\<close>. While a
  revision is cached, every sequence of requests at instants before \<open>valid_until\<close>
  returns the cached revision each time and makes no invocation of the datastore function
  (the state, with its count of invocations, is unchanged). A request at an instant not
  before \<open>valid_until\<close> invokes the datastore function, returns the new revision and
  stores it.
\<close>

theorem OptimizedRevision_cache:
  "(valid_at (cached cor) t = None \<and> optimizedFunc n = Inr (r, v) \<longrightarrow>
      CachedOptimizedRevisions_OptimizedRevision optimizedFunc t (cor, n) =
        (Inr r, (cor\<lparr>cached := Some (r, t + v + maxRevisionStaleness cor)\<rparr>, Suc n)))
   \<and> (cached cor = Some (r, valid_until) \<and> (\<forall>t' \<in> set ts. t' < valid_until) \<longrightarrow>
        requests optimizedFunc ts (cor, n) = (replicate (length ts) (Inr r), (cor, n)))
   \<and> (cached cor = Some (r, valid_until) \<and> valid_until \<le> t \<and> optimizedFunc n = Inr (r', v') \<longrightarrow>
        CachedOptimizedRevisions_OptimizedRevision optimizedFunc t (cor, n) =
          (Inr r', (cor\<lparr>cached := Some (r', t + v' + maxRevisionStaleness cor)\<rparr>, Suc n)))"
proof (intro conjI impI)
  assume "valid_at (cached cor) t = None \<and> optimizedFunc n = Inr (r, v)"
  then show "CachedOptimizedRevisions_OptimizedRevision optimizedFunc t (cor, n) =
        (Inr r, (cor\<lparr>cached := Some (r, t + v + maxRevisionStaleness cor)\<rparr>, Suc n))"
    by (simp add: OptimizedRevision_refresh)
next
  assume "cached cor = Some (r, valid_until) \<and> (\<forall>t' \<in> set ts. t' < valid_until)"
  then show "requests optimizedFunc ts (cor, n) = (replicate (length ts) (Inr r), (cor, n))"
    by (simp add: requests_cached)
next
  assume a: "cached cor = Some (r, valid_until) \<and> valid_until \<le> t \<and> optimizedFunc n = Inr (r', v')"
  then have "valid_at (cached cor) t = None" by (simp add: valid_at_def)
  with a show "CachedOptimizedRevisions_OptimizedRevision optimizedFunc t (cor, n) =
          (Inr r', (cor\<lparr>cached := Some (r', t + v' + maxRevisionStaleness cor)\<rparr>, Suc n))"
    by (simp add: OptimizedRevision_refresh)
qed

text \<open>The six cases of TestOptimizedRevisionCache pass on the model.\<close>

lemma TestOptimizedRevisionCache_passes: "TestOptimizedRevisionCache"
  by (simp add: TestOptimizedRevisionCache_def testCases_def test_case_passes_def
      NewCachedOptimizedRevisions_def trackingRevisionFunction_def
      CachedOptimizedRevisions_OptimizedRevision_def valid_at_def time_Millisecond_def)

lemma run_append: "run s f (es @ es') st = run s f es' (run s f es st)"
  by (induction es arbitrary: st) simp_all

lemma run_joiners:
  assumes "in_flight st = Some (started, k, waiters)"
    and "\<forall>(c, t) \<in> set callers. valid_at (cache st) t = None"
  shows "run s f (arrivals callers) st = st\<lparr>in_flight := Some (started, k, waiters @ map fst callers)\<rparr>"
  using assms
proof (induction callers arbitrary: st waiters)
  case Nil
  then show ?case by (simp add: arrivals_def)
next
  case (Cons ct callers)
  obtain c t where ct: "ct = (c, t)" by (cases ct)
  let ?st = "st\<lparr>in_flight := Some (started, k, waiters @ [c])\<rparr>"
  from Cons.prems ct have s1: "step s f (Arrive c t) st = ?st" by simp
  have "run s f (arrivals callers) ?st =
      ?st\<lparr>in_flight := Some (started, k, (waiters @ [c]) @ map fst callers)\<rparr>"
    using Cons.prems by (intro Cons.IH) simp_all
  with s1 ct show ?case by (simp add: arrivals_def)
qed

lemma run_first_caller:
  assumes "in_flight st = None" "valid_at (cache st) t = None"
    and "\<forall>(c, t) \<in> set callers. valid_at (cache st) t = None"
  shows "run s f (arrivals ((c, t) # callers)) st =
     st\<lparr>in_flight := Some (t, invocations st, c # map fst callers),
        invocations := Suc (invocations st)\<rparr>"
proof -
  let ?st = "st\<lparr>in_flight := Some (t, invocations st, [c]), invocations := Suc (invocations st)\<rparr>"
  from assms have "step s f (Arrive c t) st = ?st" by simp
  moreover have "run s f (arrivals callers) ?st =
      ?st\<lparr>in_flight := Some (t, invocations st, [c] @ map fst callers)\<rparr>"
    using assms by (intro run_joiners) simp_all
  ultimately show ?thesis by (simp add: arrivals_def)
qed

lemma step_Complete_in_flight:
  "in_flight st = Some (started, k, waiters) \<Longrightarrow>
   step s f Complete st =
     (case f k of
        Inl err \<Rightarrow> st\<lparr>in_flight := None,
                     delivered := delivered st @ map (\<lambda>caller. (caller, Inl err)) waiters\<rparr>
      | Inr (optimized, validFor) \<Rightarrow>
          st\<lparr>cache := Some (optimized, started + validFor + s), in_flight := None,
             delivered := delivered st @ map (\<lambda>caller. (caller, Inr optimized)) waiters\<rparr>)"
  by simp

lemma Complete_facts:
  assumes "in_flight st = Some (started, k, waiters)"
  shows "invocations (step s f Complete st) = invocations st"
    and "delivered (step s f Complete st) =
           delivered st @ map (\<lambda>caller. (caller, outcome (f k))) waiters"
    and "in_flight (step s f Complete st) = None"
    and "f k = Inl err \<Longrightarrow> cache (step s f Complete st) = cache st"
    and "f k = Inr (r, v) \<Longrightarrow> cache (step s f Complete st) = Some (r, started + v + s)"
  using assms by (auto simp: outcome_def split: sum.splits prod.splits)

lemma map_fst_outcome:
  "map (\<lambda>caller. (caller, x)) (map fst callers) = map (\<lambda>(c, t). (c, x)) callers"
  by (induction callers) auto

lemma joined_flight:
  assumes "in_flight st = Some (started, k, waiters)"
    and "\<forall>(c, t) \<in> set callers. valid_at (cache st) t = None"
  shows "invocations (run s f (arrivals callers @ [Complete]) st) = invocations st"
    and "delivered (run s f (arrivals callers @ [Complete]) st) =
           delivered st @ map (\<lambda>caller. (caller, outcome (f k))) (waiters @ map fst callers)"
    and "in_flight (run s f (arrivals callers @ [Complete]) st) = None"
proof -
  let ?mid = "st\<lparr>in_flight := Some (started, k, waiters @ map fst callers)\<rparr>"
  have mid: "run s f (arrivals callers) st = ?mid"
    using assms by (rule run_joiners)
  have fl: "in_flight ?mid = Some (started, k, waiters @ map fst callers)" by simp
  have r: "run s f (arrivals callers @ [Complete]) st = step s f Complete ?mid"
    by (simp add: run_append mid)
  show "invocations (run s f (arrivals callers @ [Complete]) st) = invocations st"
    unfolding r Complete_facts(1) [OF fl] by simp
  show "delivered (run s f (arrivals callers @ [Complete]) st) =
           delivered st @ map (\<lambda>caller. (caller, outcome (f k))) (waiters @ map fst callers)"
    unfolding r Complete_facts(2) [OF fl] by simp
  show "in_flight (run s f (arrivals callers @ [Complete]) st) = None"
    unfolding r by (rule Complete_facts(3) [OF fl])
qed

lemma started_flight:
  assumes "in_flight st = None" "callers \<noteq> []"
    and "\<forall>(c, t) \<in> set callers. valid_at (cache st) t = None"
  shows "invocations (run s f (arrivals callers @ [Complete]) st) = Suc (invocations st)"
    and "delivered (run s f (arrivals callers @ [Complete]) st) =
           delivered st @ map (\<lambda>(c, t). (c, outcome (f (invocations st)))) callers"
    and "in_flight (run s f (arrivals callers @ [Complete]) st) = None"
    and "f (invocations st) = Inl err \<Longrightarrow>
           cache (run s f (arrivals callers @ [Complete]) st) = cache st"
    and "f (invocations st) = Inr (r, v) \<Longrightarrow>
           cache (run s f (arrivals callers @ [Complete]) st) = Some (r, snd (hd callers) + v + s)"
proof -
  from assms(2) obtain c t rest where cs: "callers = (c, t) # rest"
    by (cases callers) auto
  let ?mid = "st\<lparr>in_flight := Some (t, invocations st, c # map fst rest),
        invocations := Suc (invocations st)\<rparr>"
  have mid: "run s f (arrivals callers) st = ?mid"
    unfolding cs using assms(1,3) by (intro run_first_caller) (simp_all add: cs)
  have fl: "in_flight ?mid = Some (t, invocations st, c # map fst rest)" by simp
  have r: "run s f (arrivals callers @ [Complete]) st = step s f Complete ?mid"
    by (simp add: run_append mid)
  show "invocations (run s f (arrivals callers @ [Complete]) st) = Suc (invocations st)"
    unfolding r Complete_facts(1) [OF fl] by simp
  have "map (\<lambda>caller. (caller, outcome (f (invocations st)))) (c # map fst rest)
      = map (\<lambda>(c, t). (c, outcome (f (invocations st)))) callers"
    unfolding cs by (simp add: map_fst_outcome [symmetric])
  then show "delivered (run s f (arrivals callers @ [Complete]) st) =
           delivered st @ map (\<lambda>(c, t). (c, outcome (f (invocations st)))) callers"
    unfolding r Complete_facts(2) [OF fl] by simp
  show "in_flight (run s f (arrivals callers @ [Complete]) st) = None"
    unfolding r by (rule Complete_facts(3) [OF fl])
  show "cache (run s f (arrivals callers @ [Complete]) st) = cache st"
    if "f (invocations st) = Inl err"
    unfolding r using fl that by (simp add: Complete_facts(4) [where f = f and err = err])
  show "cache (run s f (arrivals callers @ [Complete]) st) = Some (r, snd (hd callers) + v + s)"
    if "f (invocations st) = Inr (r, v)"
    unfolding r using fl that
    by (simp add: cs Complete_facts(5) [where f = f and r = r and v = v])
qed

text \<open>
  C2 (against the single-flight coordination as the spec describes it, concurrency being
  the interleaving of atomic arrivals and completions). Let \<open>n \<ge> 1\<close> callers arrive, in
  any order and at any instants at which no cached revision is valid, and let the refresh
  then complete. If no refresh was in flight, the first arrival starts one: the datastore
  function is invoked exactly once, and every one of the callers receives the outcome of
  that invocation. If a refresh was in flight already, the callers join it: no further
  invocation is made, and its waiters and all the callers receive the outcome of its one
  invocation.
\<close>

theorem single_flight:
  "callers \<noteq> [] \<and> (\<forall>(c, t) \<in> set callers. valid_at (cache st) t = None) \<longrightarrow>
     (in_flight st = None \<longrightarrow>
        invocations (run s f (arrivals callers @ [Complete]) st) = Suc (invocations st)
        \<and> delivered (run s f (arrivals callers @ [Complete]) st) =
            delivered st @ map (\<lambda>(c, t). (c, outcome (f (invocations st)))) callers
        \<and> in_flight (run s f (arrivals callers @ [Complete]) st) = None)
     \<and> (in_flight st = Some (started, k, waiters) \<longrightarrow>
        invocations (run s f (arrivals callers @ [Complete]) st) = invocations st
        \<and> delivered (run s f (arrivals callers @ [Complete]) st) =
            delivered st @ map (\<lambda>caller. (caller, outcome (f k))) (waiters @ map fst callers)
        \<and> in_flight (run s f (arrivals callers @ [Complete]) st) = None)"
proof (intro impI conjI)
  assume a: "callers \<noteq> [] \<and> (\<forall>(c, t) \<in> set callers. valid_at (cache st) t = None)"
  {
    assume n: "in_flight st = None"
    from a have ne: "callers \<noteq> []"
      and inv: "\<forall>(c, t) \<in> set callers. valid_at (cache st) t = None" by blast+
    show "invocations (run s f (arrivals callers @ [Complete]) st) = Suc (invocations st)"
      by (rule started_flight(1) [OF n ne inv])
    show "delivered (run s f (arrivals callers @ [Complete]) st) =
            delivered st @ map (\<lambda>(c, t). (c, outcome (f (invocations st)))) callers"
      by (rule started_flight(2) [OF n ne inv])
    show "in_flight (run s f (arrivals callers @ [Complete]) st) = None"
      by (rule started_flight(3) [OF n ne inv])
  }
  {
    assume j: "in_flight st = Some (started, k, waiters)"
    from a have inv: "\<forall>(c, t) \<in> set callers. valid_at (cache st) t = None" by blast
    show "invocations (run s f (arrivals callers @ [Complete]) st) = invocations st"
      by (rule joined_flight(1) [OF j inv])
    show "delivered (run s f (arrivals callers @ [Complete]) st) =
            delivered st @ map (\<lambda>caller. (caller, outcome (f k))) (waiters @ map fst callers)"
      by (rule joined_flight(2) [OF j inv])
    show "in_flight (run s f (arrivals callers @ [Complete]) st) = None"
      by (rule joined_flight(3) [OF j inv])
  }
qed

lemma valid_at_later: "valid_at c t = None \<Longrightarrow> t \<le> t' \<Longrightarrow> valid_at c t' = None"
  by (auto simp: valid_at_def split: option.splits if_splits)

text \<open>
  C3 (against the same model). If the refresh started by the first of \<open>n \<ge> 1\<close> callers
  returns an error, every caller joined on it receives that error, the cache is as it was
  (nothing is stored) and no refresh is in flight any more, so a caller arriving at a
  later instant starts a new refresh, with a new invocation of the datastore function.
  For a lone caller: the request returns the error and leaves the cache unchanged.
\<close>

theorem refresh_error:
  "(callers \<noteq> [] \<and> (\<forall>(c, t) \<in> set callers. valid_at (cache st) t = None)
      \<and> in_flight st = None \<and> f (invocations st) = Inl err \<longrightarrow>
        delivered (run s f (arrivals callers @ [Complete]) st) =
            delivered st @ map (\<lambda>(c, t). (c, Inl err)) callers
        \<and> cache (run s f (arrivals callers @ [Complete]) st) = cache st
        \<and> in_flight (run s f (arrivals callers @ [Complete]) st) = None
        \<and> ((\<exists>(c, t) \<in> set callers. t \<le> t') \<longrightarrow>
             step s f (Arrive c' t') (run s f (arrivals callers @ [Complete]) st) =
               (run s f (arrivals callers @ [Complete]) st)
                 \<lparr>in_flight := Some (t', Suc (invocations st), [c']),
                  invocations := Suc (Suc (invocations st))\<rparr>))
   \<and> (valid_at (cached cor) t = None \<and> f n = Inl err \<longrightarrow>
        CachedOptimizedRevisions_OptimizedRevision f t (cor, n) = (Inl err, (cor, Suc n)))"
proof (intro conjI impI)
  assume a: "callers \<noteq> [] \<and> (\<forall>(c, t) \<in> set callers. valid_at (cache st) t = None)
      \<and> in_flight st = None \<and> f (invocations st) = Inl err"
  then have ne: "callers \<noteq> []"
    and inv: "\<forall>(c, t) \<in> set callers. valid_at (cache st) t = None"
    and n: "in_flight st = None" and e: "f (invocations st) = Inl err" by blast+
  let ?st' = "run s f (arrivals callers @ [Complete]) st"
  show d: "delivered ?st' = delivered st @ map (\<lambda>(c, t). (c, Inl err)) callers"
    unfolding started_flight(2) [OF n ne inv] e by (simp add: outcome_def)
  show c: "cache ?st' = cache st"
    using n ne inv e by (rule started_flight(4))
  show i: "in_flight ?st' = None"
    by (rule started_flight(3) [OF n ne inv])
  assume "\<exists>(c, t) \<in> set callers. t \<le> t'"
  then obtain c0 t0 where "(c0, t0) \<in> set callers" "t0 \<le> t'" by auto
  with inv have "valid_at (cache st) t' = None"
    using valid_at_later [of "cache st" t0 t'] by auto
  with c have "valid_at (cache ?st') t' = None" by simp
  with i started_flight(1) [OF n ne inv, of s f]
  show "step s f (Arrive c' t') ?st' =
      ?st'\<lparr>in_flight := Some (t', Suc (invocations st), [c']),
          invocations := Suc (Suc (invocations st))\<rparr>"
    by simp
next
  assume "valid_at (cached cor) t = None \<and> f n = Inl err"
  then show "CachedOptimizedRevisions_OptimizedRevision f t (cor, n) = (Inl err, (cor, Suc n))"
    by (simp add: CachedOptimizedRevisions_OptimizedRevision_def)
qed

text \<open>For a lone caller the interleaving model does what the sequential request does.\<close>

lemma single_caller_refines:
  assumes "in_flight st = None"
  shows "run s f [Arrive c t, Complete] st =
     (case CachedOptimizedRevisions_OptimizedRevision f t
             (\<lparr>maxRevisionStaleness = s, cached = cache st\<rparr>, invocations st) of
        (result, (cor, n)) \<Rightarrow>
          st\<lparr>cache := cached cor, invocations := n, delivered := delivered st @ [(c, result)]\<rparr>)"
  using assms
  by (auto simp: CachedOptimizedRevisions_OptimizedRevision_def split: option.splits sum.splits)

text \<open>
  The theorem on the test case ``cached by staleness and validity'': fetched at 0 with 4
  milliseconds of validity and 2 of staleness, revision 1 is valid until 6 milliseconds;
  requests at 1 and 5 milliseconds return it; the request at 10 milliseconds fetches
  revision 2.
\<close>

theorem OptimizedRevision_cache_witness:
  "valid_at (cached sample_cache) 0 = None
   \<and> trackingRevisionFunction sample_responses 0 = Inr (1, 4 * time_Millisecond)
   \<and> CachedOptimizedRevisions_OptimizedRevision (trackingRevisionFunction sample_responses) 0
        (sample_cache, 0) = (Inr 1, (sample_cache_one, 1))
   \<and> cached sample_cache_one = Some (1, 6 * time_Millisecond)
   \<and> 1 * time_Millisecond < 6 * time_Millisecond
   \<and> 5 * time_Millisecond < 6 * time_Millisecond
   \<and> requests (trackingRevisionFunction sample_responses)
        [1 * time_Millisecond, 5 * time_Millisecond] (sample_cache_one, 1)
       = ([Inr 1, Inr 1], (sample_cache_one, 1))
   \<and> 6 * time_Millisecond \<le> 10 * time_Millisecond
   \<and> trackingRevisionFunction sample_responses 1 = Inr (2, 0)
   \<and> CachedOptimizedRevisions_OptimizedRevision (trackingRevisionFunction sample_responses)
        (10 * time_Millisecond) (sample_cache_one, 1)
       = (Inr 2, (sample_cache\<lparr>cached := Some (2, 12 * time_Millisecond)\<rparr>, 2))"
proof -
  let ?f = "trackingRevisionFunction sample_responses"
  have v0: "valid_at (cached sample_cache) 0 = None"
    by (simp add: sample_cache_def NewCachedOptimizedRevisions_def valid_at_def)
  have f0: "?f 0 = Inr (1, 4 * time_Millisecond)"
    by (simp add: trackingRevisionFunction_def sample_responses_def)
  have f1: "?f 1 = Inr (2, 0)"
    by (simp add: trackingRevisionFunction_def sample_responses_def)
  have c1: "cached sample_cache_one = Some (1, 6 * time_Millisecond)"
    by (simp add: sample_cache_one_def)
  have lt: "1 * time_Millisecond < 6 * time_Millisecond"
    "5 * time_Millisecond < 6 * time_Millisecond"
    "6 * time_Millisecond \<le> 10 * time_Millisecond"
    by (simp_all add: time_Millisecond_def)
  have one: "sample_cache\<lparr>cached := Some (1, 0 + 4 * time_Millisecond
      + maxRevisionStaleness sample_cache)\<rparr> = sample_cache_one"
    by (simp add: sample_cache_one_def sample_cache_def NewCachedOptimizedRevisions_def)
  have two: "sample_cache_one\<lparr>cached := Some (2, 10 * time_Millisecond + 0
      + maxRevisionStaleness sample_cache_one)\<rparr>
      = sample_cache\<lparr>cached := Some (2, 12 * time_Millisecond)\<rparr>"
    by (simp add: sample_cache_one_def sample_cache_def NewCachedOptimizedRevisions_def)
  have r1: "CachedOptimizedRevisions_OptimizedRevision ?f 0 (sample_cache, 0)
      = (Inr 1, (sample_cache_one, 1))"
    using mp [OF conjunct1 [OF OptimizedRevision_cache], of sample_cache 0 ?f 0 1
        "4 * time_Millisecond", OF conjI [OF v0 f0]]
    unfolding one by simp
  have ball: "\<forall>t' \<in> set [1 * time_Millisecond, 5 * time_Millisecond]. t' < 6 * time_Millisecond"
    using lt by simp
  have r2: "requests ?f [1 * time_Millisecond, 5 * time_Millisecond] (sample_cache_one, 1)
       = ([Inr 1, Inr 1], (sample_cache_one, 1))"
    using mp [OF conjunct1 [OF conjunct2 [OF OptimizedRevision_cache]],
        of sample_cache_one 1 "6 * time_Millisecond"
          "[1 * time_Millisecond, 5 * time_Millisecond]" ?f 1, OF conjI [OF c1 ball]]
    by (simp add: numeral_2_eq_2)
  have r3: "CachedOptimizedRevisions_OptimizedRevision ?f (10 * time_Millisecond)
        (sample_cache_one, 1)
       = (Inr 2, (sample_cache\<lparr>cached := Some (2, 12 * time_Millisecond)\<rparr>, 2))"
    using mp [OF conjunct2 [OF conjunct2 [OF OptimizedRevision_cache]],
        of sample_cache_one 1 "6 * time_Millisecond" "10 * time_Millisecond" ?f 1 2 0,
        OF conjI [OF c1 conjI [OF lt(3) f1]]]
    unfolding two by (simp add: numeral_2_eq_2)
  show ?thesis
    by (intro conjI) (rule v0 f0 r1 c1 lt r2 f1 r3)+
qed

lemma singleFlightCallers_invalid:
  "\<forall>(c, t) \<in> set callers. valid_at (cache (initial_flight_state :: nat flight_state)) t = None"
  by (auto simp: initial_flight_state_def valid_at_def)

text \<open>
  The theorem on the single-flight test: ten callers one millisecond apart, one programmed
  response; one invocation, and each caller receives revision 1. The same with caller 0
  having started the refresh before the other nine arrive.
\<close>

theorem single_flight_witness:
  "singleFlightCallers \<noteq> []
   \<and> list_all (\<lambda>(c, t). valid_at (cache (initial_flight_state :: nat flight_state)) t = None)
        singleFlightCallers
   \<and> in_flight (initial_flight_state :: nat flight_state) = None
   \<and> invocations (run 0 (trackingRevisionFunction [(1 :: nat, 0)])
        (arrivals singleFlightCallers @ [Complete]) initial_flight_state) = 1
   \<and> delivered (run 0 (trackingRevisionFunction [(1 :: nat, 0)])
        (arrivals singleFlightCallers @ [Complete]) initial_flight_state)
       = map (\<lambda>i. (i, Inr 1)) [0..<10]
   \<and> in_flight started_flight_state = Some (0, 0, [0])
   \<and> invocations (run 0 (trackingRevisionFunction [(1 :: nat, 0)])
        (arrivals (tl singleFlightCallers) @ [Complete]) started_flight_state) = 1
   \<and> delivered (run 0 (trackingRevisionFunction [(1 :: nat, 0)])
        (arrivals (tl singleFlightCallers) @ [Complete]) started_flight_state)
       = map (\<lambda>i. (i, Inr 1)) [0..<10]"
proof -
  let ?f = "trackingRevisionFunction [(1 :: nat, 0)]"
  let ?i = "initial_flight_state :: nat flight_state"
  have ne: "singleFlightCallers \<noteq> []" "tl singleFlightCallers \<noteq> []"
    by (simp_all add: singleFlightCallers_def upt_rec)
  have inv: "\<forall>(c, t) \<in> set singleFlightCallers. valid_at (cache ?i) t = None"
    by (rule singleFlightCallers_invalid)
  have inv': "\<forall>(c, t) \<in> set (tl singleFlightCallers). valid_at (cache started_flight_state) t = None"
    by (auto simp: started_flight_state_def initial_flight_state_def valid_at_def)
  have la: "list_all (\<lambda>(c, t). valid_at (cache ?i) t = None) singleFlightCallers"
    using inv by (simp add: list_all_iff)
  have n: "in_flight ?i = None" by (simp add: initial_flight_state_def)
  have j: "in_flight started_flight_state = Some (0, 0, [0])"
    by (simp add: started_flight_state_def)
  have out: "outcome (?f 0) = Inr 1"
    by (simp add: outcome_def trackingRevisionFunction_def)
  have cs: "map (\<lambda>(c, t). (c, Inr 1 :: string + nat)) singleFlightCallers = map (\<lambda>i. (i, Inr 1)) [0..<10]"
    by (simp add: singleFlightCallers_def)
  have cs': "[0] @ map fst (tl singleFlightCallers) = [0..<10]"
    by (simp add: singleFlightCallers_def upt_rec)
  note A = mp [OF mp [OF single_flight, THEN conjunct1], of singleFlightCallers ?i 0 ?f,
      OF conjI [OF ne(1) inv] n]
  note B = mp [OF mp [OF single_flight, THEN conjunct2], of "tl singleFlightCallers"
      started_flight_state 0 0 "[0]" 0 ?f, OF conjI [OF ne(2) inv'] j]
  have a1: "invocations (run 0 ?f (arrivals singleFlightCallers @ [Complete]) ?i) = 1"
    using A [THEN conjunct1] by (simp add: initial_flight_state_def)
  have a2: "delivered (run 0 ?f (arrivals singleFlightCallers @ [Complete]) ?i)
       = map (\<lambda>i. (i, Inr 1)) [0..<10]"
  proof -
    have i0: "invocations ?i = 0" "delivered ?i = []"
      by (simp_all add: initial_flight_state_def)
    show ?thesis
      unfolding A [THEN conjunct2, THEN conjunct1] i0 out cs by simp
  qed
  have b1: "invocations (run 0 ?f (arrivals (tl singleFlightCallers) @ [Complete])
      started_flight_state) = 1"
    using B [THEN conjunct1] by (simp add: started_flight_state_def)
  have b2: "delivered (run 0 ?f (arrivals (tl singleFlightCallers) @ [Complete])
      started_flight_state) = map (\<lambda>i. (i, Inr 1)) [0..<10]"
  proof -
    have d0: "delivered started_flight_state = []"
      by (simp add: started_flight_state_def initial_flight_state_def)
    show ?thesis
      unfolding B [THEN conjunct2, THEN conjunct1] d0 out cs' by simp
  qed
  show ?thesis
    by (intro conjI) (rule ne(1) la n a1 a2 j b1 b2)+
qed

text \<open>
  The theorem on the error test: one caller, the programmed response is the error
  \<open>fail\<close>; the caller receives it, nothing is cached, and a caller arriving at instant 5
  starts the second invocation.
\<close>

theorem refresh_error_witness:
  "[(0 :: nat, 0 :: int)] \<noteq> []
   \<and> valid_at (cache (initial_flight_state :: nat flight_state)) 0 = None
   \<and> in_flight (initial_flight_state :: nat flight_state) = None
   \<and> failingRevisionFunction (invocations (initial_flight_state :: nat flight_state)) = Inl ''fail''
   \<and> delivered (run 0 failingRevisionFunction (arrivals [(0, 0)] @ [Complete])
        initial_flight_state) = [(0, Inl ''fail'')]
   \<and> cache (run 0 failingRevisionFunction (arrivals [(0, 0)] @ [Complete])
        initial_flight_state) = None
   \<and> (0 :: int) \<le> 5
   \<and> in_flight (step 0 failingRevisionFunction (Arrive 1 5)
        (run 0 failingRevisionFunction (arrivals [(0, 0)] @ [Complete]) initial_flight_state))
       = Some (5, 1, [1])
   \<and> valid_at (cached sample_cache) 0 = None
   \<and> CachedOptimizedRevisions_OptimizedRevision failingRevisionFunction 0 (sample_cache, 0)
       = (Inl ''fail'', (sample_cache, 1))"
proof -
  let ?i = "initial_flight_state :: nat flight_state"
  let ?f = failingRevisionFunction
  have ne: "[(0 :: nat, 0 :: int)] \<noteq> []" by simp
  have v: "valid_at (cache ?i) 0 = None" by (simp add: initial_flight_state_def valid_at_def)
  have inv: "\<forall>(c, t) \<in> set [(0 :: nat, 0 :: int)]. valid_at (cache ?i) t = None"
    using v by simp
  have n: "in_flight ?i = None" by (simp add: initial_flight_state_def)
  have e: "?f (invocations ?i) = Inl ''fail''"
    by (simp add: failingRevisionFunction_def initial_flight_state_def)
  have le: "(0 :: int) \<le> 5" by simp
  have ex: "\<exists>(c, t) \<in> set [(0 :: nat, 0 :: int)]. t \<le> 5" by simp
  note A = mp [OF conjunct1 [OF refresh_error], of "[(0, 0)]" ?i ?f "''fail''" 0 5 1,
      OF conjI [OF ne conjI [OF inv conjI [OF n e]]]]
  have d: "delivered (run 0 ?f (arrivals [(0, 0)] @ [Complete]) ?i) = [(0, Inl ''fail'')]"
    using A [THEN conjunct1] by (simp add: initial_flight_state_def)
  have c: "cache (run 0 ?f (arrivals [(0, 0)] @ [Complete]) ?i) = None"
    using A [THEN conjunct2, THEN conjunct1] by (simp add: initial_flight_state_def)
  have l: "in_flight (step 0 ?f (Arrive 1 5) (run 0 ?f (arrivals [(0, 0)] @ [Complete]) ?i))
       = Some (5, 1, [1])"
    unfolding mp [OF A [THEN conjunct2, THEN conjunct2, THEN conjunct2] ex]
    by (simp add: initial_flight_state_def)
  have v0: "valid_at (cached sample_cache) 0 = None"
    by (simp add: sample_cache_def NewCachedOptimizedRevisions_def valid_at_def)
  have e0: "?f 0 = Inl ''fail''" by (simp add: failingRevisionFunction_def)
  have q: "CachedOptimizedRevisions_OptimizedRevision ?f 0 (sample_cache, 0)
       = (Inl ''fail'', (sample_cache, 1))"
    using mp [OF conjunct2 [OF refresh_error], of sample_cache 0 ?f 0 "''fail''",
        OF conjI [OF v0 e0]]
    by simp
  show ?thesis
    by (intro conjI) (rule ne v n e d c le l v0 q)+
qed

subsection \<open>The reachability graph\<close>

lemma status_under_Nil: "status_under status [] = status"
  by (simp add: status_under_def)

lemma status_under_Cons:
  "status_under status (operation # ops) = status_under (child_status operation status) ops"
  by (cases operation) (simp_all add: status_under_def)

lemma walk_status:
  "le \<in> set (rewrite_entrypoints ns rel status pos rw) \<Longrightarrow>
     \<exists>q. position le = pos @ q
        \<and> result_status (entrypoint le) = status_under status (ancestor_operations rw q)"
  "le \<in> set (children_entrypoints ns rel status pos idx children) \<Longrightarrow>
     \<exists>j q. position le = pos @ (idx + j) # q
        \<and> result_status (entrypoint le) = status_under status (ancestors_in_children children j q)"
  "le \<in> set (child_entrypoints ns rel status pos c) \<Longrightarrow>
     \<exists>q. position le = pos @ q
        \<and> result_status (entrypoint le) = status_under status (ancestors_in_child c q)"
proof (induction ns rel status pos rw and ns rel status pos idx children and ns rel status pos c
    rule: rewrite_entrypoints_children_entrypoints_child_entrypoints.induct)
  case (1 ns rel status pos operation children)
  then obtain j q where jq: "position le = pos @ (0 + j) # q"
    "result_status (entrypoint le) =
       status_under (child_status operation status) (ancestors_in_children children j q)"
    by auto
  then have "position le = pos @ (j # q)
      \<and> result_status (entrypoint le) =
          status_under status (ancestor_operations (Rewrite operation children) (j # q))"
    by (simp add: status_under_Cons)
  then show ?case by blast
next
  case (2 ns rel status pos idx)
  then show ?case by simp
next
  case (3 ns rel status pos idx c children)
  from "3.prems" consider
    "le \<in> set (child_entrypoints ns rel status (pos @ [idx]) c)"
    | "le \<in> set (children_entrypoints ns rel status pos (Suc idx) children)"
    by auto
  then show ?case
  proof cases
    case 1
    with "3.IH"(1) obtain q where "position le = (pos @ [idx]) @ q"
      "result_status (entrypoint le) = status_under status (ancestors_in_child c q)"
      by blast
    then have "position le = pos @ (idx + 0) # q
        \<and> result_status (entrypoint le) =
            status_under status (ancestors_in_children (c # children) 0 q)"
      by simp
    then show ?thesis by blast
  next
    case 2
    with "3.IH"(2) obtain j q where "position le = pos @ (Suc idx + j) # q"
      "result_status (entrypoint le) = status_under status (ancestors_in_children children j q)"
      by blast
    then have "position le = pos @ (idx + Suc j) # q
        \<and> result_status (entrypoint le) =
            status_under status (ancestors_in_children (c # children) (Suc j) q)"
      by simp
    then show ?thesis by blast
  qed
next
  case (4 ns rel status pos)
  then have "position le = pos @ []
      \<and> result_status (entrypoint le) = status_under status (ancestors_in_child This_child [])"
    by (auto simp: status_under_Nil)
  then show ?case by blast
next
  case (5 ns rel status pos r)
  then have "position le = pos @ []
      \<and> result_status (entrypoint le) = status_under status (ancestors_in_child (Computed_child r) [])"
    by (auto simp: status_under_Nil)
  then show ?case by blast
next
  case (6 ns rel status pos ts r)
  then have "position le = pos @ []
      \<and> result_status (entrypoint le) =
          status_under status (ancestors_in_child (TupleToUserset_child ts r) [])"
    by (auto simp: status_under_Nil)
  then show ?case by blast
next
  case (7 ns rel status pos rw)
  then show ?case by simp
next
  case (8 ns rel status pos)
  then show ?case by simp
qed

lemma relation_entrypoints_status:
  assumes "le \<in> set (relation_entrypoints ns rel)"
  shows "result_status (entrypoint le) =
     status_under DIRECT_OPERATION_RESULT (relation_ancestors rel (position le))"
proof (cases "relation_rewrite rel")
  case None
  with assms have "le \<in> set (child_entrypoints ns rel DIRECT_OPERATION_RESULT [] This_child)"
    by (simp add: relation_entrypoints_def)
  then have "position le = []" "result_status (entrypoint le) = DIRECT_OPERATION_RESULT"
    by auto
  with None show ?thesis by (simp add: relation_ancestors_def status_under_Nil)
next
  case (Some rw)
  with assms have "le \<in> set (rewrite_entrypoints ns rel DIRECT_OPERATION_RESULT [] rw)"
    by (simp add: relation_entrypoints_def)
  from walk_status(1) [OF this] Some show ?thesis
    by (auto simp: relation_ancestors_def)
qed

lemma not_UNION: "operation \<noteq> UNION \<longleftrightarrow> operation = INTERSECTION \<or> operation = EXCLUSION"
  by (cases operation) simp_all

text \<open>
  C5 (against the construction as section 4.2 of the spec describes it). For every
  relation and every entrypoint of its reachability graph, at its position in the rewrite
  tree: the result status is \<^verbatim>\<open>DIRECT_OPERATION_RESULT\<close> if and only if every operation
  above the position is a union, and it is \<^verbatim>\<open>REACHABLE_CONDITIONAL_RESULT\<close> if and only
  if one of them is an intersection or an exclusion. The entrypoints recorded under a
  subject type or a subject relation are among these.
\<close>

theorem entrypoint_result_status:
  "(le \<in> set (relation_entrypoints ns rel) \<longrightarrow>
      (result_status (entrypoint le) = DIRECT_OPERATION_RESULT \<longleftrightarrow>
         (\<forall>operation \<in> set (relation_ancestors rel (position le)). operation = UNION))
      \<and> (result_status (entrypoint le) = REACHABLE_CONDITIONAL_RESULT \<longleftrightarrow>
         (\<exists>operation \<in> set (relation_ancestors rel (position le)).
            operation = INTERSECTION \<or> operation = EXCLUSION)))
   \<and> (e \<in> set (entrypoints_by_subject_type ns rel subject_ns)
         \<union> set (entrypoints_by_subject_relation ns rel subject_ns subject_rel) \<longrightarrow>
        (\<exists>le' \<in> set (relation_entrypoints ns rel). entrypoint le' = e
           \<and> (result_status e = DIRECT_OPERATION_RESULT \<longleftrightarrow>
                (\<forall>operation \<in> set (relation_ancestors rel (position le')). operation = UNION))))"
proof -
  have direct: "result_status (entrypoint x) = DIRECT_OPERATION_RESULT \<longleftrightarrow>
      (\<forall>operation \<in> set (relation_ancestors rel (position x)). operation = UNION)"
    if "x \<in> set (relation_entrypoints ns rel)" for x
    unfolding relation_entrypoints_status [OF that] by (simp add: status_under_def)
  have conditional: "result_status (entrypoint x) = REACHABLE_CONDITIONAL_RESULT \<longleftrightarrow>
      (\<exists>operation \<in> set (relation_ancestors rel (position x)).
            operation = INTERSECTION \<or> operation = EXCLUSION)"
    if "x \<in> set (relation_entrypoints ns rel)" for x
    unfolding relation_entrypoints_status [OF that] not_UNION [symmetric]
    by (simp add: status_under_def)
  have graph: "\<exists>le' \<in> set (relation_entrypoints ns rel). entrypoint le' = e
           \<and> (result_status e = DIRECT_OPERATION_RESULT \<longleftrightarrow>
                (\<forall>operation \<in> set (relation_ancestors rel (position le')). operation = UNION))"
    if "e \<in> set (entrypoints_by_subject_type ns rel subject_ns)
         \<union> set (entrypoints_by_subject_relation ns rel subject_ns subject_rel)"
  proof -
    from that obtain x where x: "x \<in> set (relation_entrypoints ns rel)" "entrypoint x = e"
      by (auto simp: entrypoints_by_subject_type_def entrypoints_by_subject_relation_def)
    with direct [OF x(1)] show ?thesis by blast
  qed
  from direct conditional graph show ?thesis by blast
qed

text \<open>
  The entrypoints of \<open>edit\<close>, and those of the permission \<open>view\<close> of the proto file's
  documentation (two computed usersets and one tupleset to userset, all direct).
\<close>

lemma edit_entrypoints:
  "map (\<lambda>le. (position le, subject le, kind (entrypoint le), result_status (entrypoint le)))
     (relation_entrypoints resource_namespace edit_relation) =
   [([0], BySubjectRelation ''resource'' ''owner'', COMPUTED_USERSET_ENTRYPOINT,
       DIRECT_OPERATION_RESULT),
    ([1, 0], BySubjectRelation ''resource'' ''viewer'', COMPUTED_USERSET_ENTRYPOINT,
       REACHABLE_CONDITIONAL_RESULT),
    ([1, 1], BySubjectRelation ''resource'' ''banned'', COMPUTED_USERSET_ENTRYPOINT,
       REACHABLE_CONDITIONAL_RESULT),
    ([2, 0], BySubjectRelation ''resource'' ''editor'', COMPUTED_USERSET_ENTRYPOINT,
       DIRECT_OPERATION_RESULT)]"
  by (simp add: relation_entrypoints_def edit_relation_def edit_rewrite_def
      resource_namespace_def)

lemma view_entrypoints:
  "map (\<lambda>le. (position le, subject le, kind (entrypoint le), result_status (entrypoint le)))
     (relation_entrypoints resource_namespace view_relation) =
   [([0], BySubjectRelation ''resource'' ''viewer'', COMPUTED_USERSET_ENTRYPOINT,
       DIRECT_OPERATION_RESULT),
    ([1], BySubjectRelation ''resource'' ''owner'', COMPUTED_USERSET_ENTRYPOINT,
       DIRECT_OPERATION_RESULT),
    ([2], BySubjectRelation ''organization'' ''admin'', TUPLESET_TO_USERSET_ENTRYPOINT,
       DIRECT_OPERATION_RESULT)]"
  by (simp add: relation_entrypoints_def view_relation_def view_rewrite_def
      resource_namespace_def tupleset_types_def edit_relation_def)


text \<open>
  The theorem on the permission \<open>edit = owner + (viewer - banned) + (editor)\<close>: the
  entrypoint for \<open>viewer\<close> lies below a union and an exclusion and is conditional, the
  one for \<open>editor\<close> lies below two unions and is direct.
\<close>

theorem entrypoint_result_status_witness:
  "viewer_under_exclusion \<in> set (relation_entrypoints resource_namespace edit_relation)
   \<and> relation_ancestors edit_relation (position viewer_under_exclusion) = [UNION, EXCLUSION]
   \<and> result_status (entrypoint viewer_under_exclusion) = REACHABLE_CONDITIONAL_RESULT
   \<and> editor_under_union \<in> set (relation_entrypoints resource_namespace edit_relation)
   \<and> relation_ancestors edit_relation (position editor_under_union) = [UNION, UNION]
   \<and> result_status (entrypoint editor_under_union) = DIRECT_OPERATION_RESULT
   \<and> entrypoint editor_under_union
       \<in> set (entrypoints_by_subject_relation resource_namespace edit_relation
               ''resource'' ''editor'')"
proof -
  have entries: "relation_entrypoints resource_namespace edit_relation =
    [\<lparr>position = [0], subject = BySubjectRelation ''resource'' ''owner'',
       entrypoint = \<lparr>kind = COMPUTED_USERSET_ENTRYPOINT,
         target_relation = \<lparr>ref_namespace = ''resource'', ref_relation = ''edit''\<rparr>,
         result_status = DIRECT_OPERATION_RESULT, tupleset_relation = []\<rparr>\<rparr>,
     viewer_under_exclusion,
     \<lparr>position = [1, 1], subject = BySubjectRelation ''resource'' ''banned'',
       entrypoint = \<lparr>kind = COMPUTED_USERSET_ENTRYPOINT,
         target_relation = \<lparr>ref_namespace = ''resource'', ref_relation = ''edit''\<rparr>,
         result_status = REACHABLE_CONDITIONAL_RESULT, tupleset_relation = []\<rparr>\<rparr>,
     editor_under_union]"
    by (simp add: relation_entrypoints_def edit_relation_def edit_rewrite_def
        resource_namespace_def viewer_under_exclusion_def editor_under_union_def)
  have m1: "viewer_under_exclusion \<in> set (relation_entrypoints resource_namespace edit_relation)"
    and m2: "editor_under_union \<in> set (relation_entrypoints resource_namespace edit_relation)"
    unfolding entries by simp_all
  have a1: "relation_ancestors edit_relation (position viewer_under_exclusion) = [UNION, EXCLUSION]"
    by (simp add: relation_ancestors_def edit_relation_def edit_rewrite_def
        viewer_under_exclusion_def)
  have a2: "relation_ancestors edit_relation (position editor_under_union) = [UNION, UNION]"
    by (simp add: relation_ancestors_def edit_relation_def edit_rewrite_def
        editor_under_union_def numeral_2_eq_2)
  note T1 = mp [OF conjunct1 [OF entrypoint_result_status] m1]
  note T2 = mp [OF conjunct1 [OF entrypoint_result_status] m2]
  have s1: "result_status (entrypoint viewer_under_exclusion) = REACHABLE_CONDITIONAL_RESULT"
    unfolding T1 [THEN conjunct2] a1 by simp
  have s2: "result_status (entrypoint editor_under_union) = DIRECT_OPERATION_RESULT"
    unfolding T2 [THEN conjunct1] a2 by simp
  have g: "entrypoint editor_under_union
       \<in> set (entrypoints_by_subject_relation resource_namespace edit_relation
               ''resource'' ''editor'')"
    unfolding entrypoints_by_subject_relation_def entries
    by (simp add: viewer_under_exclusion_def editor_under_union_def)
  show ?thesis
    by (intro conjI) (rule m1 a1 s1 m2 a2 s2 g)+
qed

end
